theory Spec2Isabelle
  imports Complex_Main
begin

section \<open>Variable-load traffic simulator (sample-apps/3-variable-load/app/main.py)\<close>

text \<open>
  The module keeps its configuration, its worker pool and its metrics in module-level
  globals that the controller thread and the HTTP handlers read and assign. The model
  collects these globals in one record and passes it explicitly; every handler and the
  controller tick take the record and return the updated one.

  Python integers are unbounded and are modelled as \<open>int\<close>; \<open>%\<close> on integers takes
  the sign of the divisor, as \<open>mod\<close> on \<open>int\<close> does. A Python float is an IEEE 754
  double. A finite double is modelled as the real number it denotes, and every float
  operation as the exact operation followed by rounding to the nearest double, ties to
  the even significand. The two zeros are not told apart: the program never divides by
  a float and never reads the sign of a zero. \<open>math.sin\<close> is computed by the C library
  and is a parameter \<open>msin\<close> of the model, a function from finite doubles to finite
  doubles.
\<close>

subsection \<open>Values and errors\<close>

text \<open>
  A parsed JSON value as \<open>request.get_json()\<close> returns it. \<open>JDict\<close> holds the items of
  the parsed dict in order (its keys are distinct after parsing; lookups take the first
  match). \<open>JNaN\<close> and \<open>JInfinity\<close> are the non-finite floats that the parser accepts.
\<close>

datatype json =
    JNull
  | JBool bool
  | JInt int
  | JFloat real
  | JNaN
  | JInfinity
  | JStr string
  | JList "json list"
  | JDict "(string \<times> json) list"

datatype py_error = ZeroDivisionError | TypeError | ValueError | OverflowError | KeyError

text \<open>\<open>int(x)\<close> for a finite float \<open>x\<close>: truncation towards zero.\<close>

definition int_of_float :: "real \<Rightarrow> int" where
  "int_of_float x = (if x < 0 then \<lceil>x\<rceil> else \<lfloor>x\<rfloor>)"

subsection \<open>Double-precision arithmetic\<close>

text \<open>Rounding to an integer, ties to the even one.\<close>

definition round_half_even :: "real \<Rightarrow> int" where
  "round_half_even y =
     (let n = \<lfloor>y\<rfloor>; r = y - real_of_int n
      in if r < 1 / 2 then n else if 1 / 2 < r then n + 1 else if even n then n else n + 1)"

text \<open>The binary exponent of a double near \<open>x\<close>, not below that of the subnormal
  numbers, and the distance \<open>ulp x\<close> between neighbouring doubles there (53 significant
  bits).\<close>

definition exponent :: "real \<Rightarrow> int" where
  "exponent x = max \<lfloor>log 2 \<bar>x\<bar>\<rfloor> (- 1022)"

definition pow2 :: "int \<Rightarrow> real" where
  "pow2 k = (if 0 \<le> k then 2 ^ nat k else 1 / 2 ^ nat (- k))"

definition ulp :: "real \<Rightarrow> real" where
  "ulp x = pow2 (exponent x - 52)"

text \<open>\<open>fl x\<close> is the double nearest to \<open>x\<close>, with the exponent unbounded above. A result
  beyond \<open>max_double\<close> is an infinity, \<open>None\<close> in \<open>rounded\<close>.\<close>

definition fl :: "real \<Rightarrow> real" where
  "fl x = (if x = 0 then 0 else real_of_int (round_half_even (x / ulp x)) * ulp x)"

definition max_double :: real where
  "max_double = (2 ^ 53 - 1) * 2 ^ 971"

definition rounded :: "real \<Rightarrow> real option" where
  "rounded x = (if max_double < \<bar>fl x\<bar> then None else Some (fl x))"

text \<open>The numbers that are doubles: an integer of less than 53 bits times a power of two
  that is not below the smallest subnormal.\<close>

definition representable :: "real \<Rightarrow> bool" where
  "representable x = (\<exists>m j. \<bar>m\<bar> < 2 ^ 53 \<and> - 1074 \<le> j \<and> x = real_of_int m * pow2 j)"

text \<open>The conversion of an integer operand in mixed arithmetic (\<open>int * float\<close>,
  \<open>int + float\<close>): correctly rounded, OverflowError when the integer is too large.\<close>

definition float_of_int :: "int \<Rightarrow> py_error + real" where
  "float_of_int n =
     (case rounded (real_of_int n) of None \<Rightarrow> Inl OverflowError | Some x \<Rightarrow> Inr x)"

text \<open>\<open>int(x)\<close> for a float result \<open>x\<close>: OverflowError on an infinity.\<close>

definition int_of_double :: "real option \<Rightarrow> py_error + int" where
  "int_of_double r = (case r of None \<Rightarrow> Inl OverflowError | Some x \<Rightarrow> Inr (int_of_float x))"

text \<open>The value of \<open>math.pi\<close>, the double \<open>0x400921FB54442D18\<close>.\<close>

definition pi_double :: real where
  "pi_double = 884279719003555 / 2 ^ 48"

subsection \<open>Global state\<close>

text \<open>A \<open>threading.Thread\<close> of the pool: the identifier passed to \<open>worker_task\<close>, and
  what \<open>is_alive()\<close> answers.\<close>

record thread =
  worker_id :: int
  is_alive :: bool

text \<open>The records written by \<open>logger.info\<close> and \<open>logger.error\<close> in the controller
  and the handlers.\<close>

datatype log_record =
    ScaledUp int nat              \<comment> \<open>Scaled up to target workers (from current)\<close>
  | ScalingDown int nat int       \<comment> \<open>Scaling down by to_stop workers (from current to target)\<close>
  | ManagerError py_error         \<comment> \<open>Error in worker manager\<close>
  | PatternModeChanged json
  | BaseLoadChanged int
  | MaxLoadChanged int
  | CycleDurationChanged int
  | ManualWorkersSet int
  | PatternChanged string

record state =
  PATTERN_MODE :: json
  BASE_LOAD :: int
  MAX_LOAD :: int
  CYCLE_DURATION :: int
  ENABLED :: bool
  workers :: "thread list"
  stop_event :: bool
  current_load_level :: int
  manual_workers :: int
  requests_total :: "string \<times> string \<times> string \<Rightarrow> nat"
  memory_usage_bytes :: int
  cpu_usage_estimate :: real
  active_workers :: nat
  load_level :: int
  logged :: "log_record list"

text \<open>The state at import time with no environment variable set (lines 28-54).\<close>

definition initial_state :: state where
  "initial_state =
     \<lparr> PATTERN_MODE = JStr ''wave'', BASE_LOAD = 10, MAX_LOAD = 50, CYCLE_DURATION = 120,
       ENABLED = True, workers = [], stop_event = False, current_load_level = 0,
       manual_workers = 10, requests_total = (\<lambda>_. 0), memory_usage_bytes = 0,
       cpu_usage_estimate = 0, active_workers = 0, load_level = 0, logged = [] \<rparr>"

subsection \<open>\<open>calculate_target_workers\<close> (lines 95-128)\<close>

text \<open>Line 103: the position in the cycle, the correctly rounded quotient of two
  integers. Its magnitude is below 1, so the division does not overflow. It is only
  evaluated when \<open>CYCLE_DURATION\<close> is not zero; the caller raises otherwise.\<close>

definition position :: "state \<Rightarrow> int \<Rightarrow> real" where
  "position s cycle_time =
     fl (real_of_int (cycle_time mod CYCLE_DURATION s) / real_of_int (CYCLE_DURATION s))"

text \<open>Line 108: \<open>position * 2 * math.pi\<close>, the argument of \<open>math.sin\<close>, and
  \<open>(math.sin(...) + 1) / 2\<close>. With a position in \<open>[0, 1]\<close> and a sine of magnitude
  at most \<open>max_double\<close> none of these operations overflows.\<close>

definition wave_angle :: "real \<Rightarrow> real" where
  "wave_angle pos = fl (fl (pos * 2) * pi_double)"

definition wave_factor :: "(real \<Rightarrow> real) \<Rightarrow> real \<Rightarrow> real" where
  "wave_factor msin pos = fl (fl (msin (wave_angle pos) + 1) / 2)"

text \<open>Lines 110 and 125: \<open>int(BASE_LOAD + (MAX_LOAD - BASE_LOAD) * load_factor)\<close>. The
  difference is an integer; it and \<open>BASE_LOAD\<close> are converted to floats, the product and
  the sum are rounded. Every failure here is an OverflowError: a conversion that
  overflows, or \<open>int\<close> of an infinite sum.\<close>

definition scaled_load :: "state \<Rightarrow> real \<Rightarrow> py_error + int" where
  "scaled_load s load_factor =
     (case float_of_int (MAX_LOAD s - BASE_LOAD s) of
        Inl e \<Rightarrow> Inl e
      | Inr d \<Rightarrow>
          (case float_of_int (BASE_LOAD s) of
             Inl e \<Rightarrow> Inl e
           | Inr b \<Rightarrow>
               int_of_double
                 (case rounded (d * load_factor) of
                    None \<Rightarrow> None
                  | Some p \<Rightarrow> rounded (b + p))))"

text \<open>Lines 109-110 and 124-125: the load level and the target for a load factor (the
  same two statements in the wave and the random branch). The global is assigned before
  the target is computed, so an exception of line 110 leaves the new load level in
  place: an exception carries the state reached.\<close>

definition apply_load_factor :: "state \<Rightarrow> real \<Rightarrow> py_error \<times> state + int \<times> state" where
  "apply_load_factor s load_factor =
     (case int_of_double (rounded (load_factor * 100)) of
        Inl e \<Rightarrow> Inl (e, s)
      | Inr level \<Rightarrow>
          (let s1 = s\<lparr>current_load_level := level\<rparr>
           in case scaled_load s1 load_factor of
                Inl e \<Rightarrow> Inl (e, s1)
              | Inr target \<Rightarrow> Inr (target, s1)))"

text \<open>Line 119: \<open>BASE_LOAD + int((MAX_LOAD - BASE_LOAD) * 0.2)\<close>, after the assignment of
  line 118. The literal \<open>0.2\<close> is the double nearest to 2/10.\<close>

definition spike_low :: "state \<Rightarrow> py_error \<times> state + int \<times> state" where
  "spike_low s =
     (let s1 = s\<lparr>current_load_level := 20\<rparr>
      in case float_of_int (MAX_LOAD s - BASE_LOAD s) of
           Inl e \<Rightarrow> Inl (e, s1)
         | Inr d \<Rightarrow>
             (case int_of_double (rounded (d * fl (2 / 10))) of
                Inl e \<Rightarrow> Inl (e, s1)
              | Inr k \<Rightarrow> Inr (BASE_LOAD s + k, s1)))"

text \<open>
  The result is the exception raised or the returned target, each with the state
  reached. \<open>msin\<close> is the library's sine; \<open>rnd\<close> is the double that \<open>random.random()\<close>
  draws in the random branch. The mode is any value: \<open>/config\<close> stores what the body
  holds, and \<open>==\<close> against a string is false for a value that is not that string. The
  literals \<open>0.1\<close>, \<open>0.5\<close> and \<open>0.6\<close> are the doubles nearest to them.
\<close>

definition calculate_target_workers ::
  "(real \<Rightarrow> real) \<Rightarrow> state \<Rightarrow> json \<Rightarrow> int \<Rightarrow> real \<Rightarrow> py_error \<times> state + int \<times> state" where
  "calculate_target_workers msin s mode cycle_time rnd =
     (if mode = JStr ''manual'' then Inr (manual_workers s, s)
      else if CYCLE_DURATION s = 0 then Inl (ZeroDivisionError, s)
      else
        let pos = position s cycle_time in
        if mode = JStr ''wave'' then
          apply_load_factor s (wave_factor msin pos)
        else if mode = JStr ''spike'' then
          (if pos < fl (1 / 10) \<or> (fl (1 / 2) \<le> pos \<and> pos < fl (6 / 10))
           then Inr (MAX_LOAD s, s\<lparr>current_load_level := 100\<rparr>)
           else spike_low s)
        else if mode = JStr ''random'' then
          apply_load_factor s rnd
        else Inr (BASE_LOAD s, s))"

subsection \<open>\<open>manage_workers\<close> (lines 131-178)\<close>

text \<open>Lines 147-154: the \<open>for i in range(target - current)\<close> loop. Each round starts
  a thread whose argument is \<open>len(workers) + i\<close>, read when the thread is created, and
  appends it to \<open>workers\<close>. A started thread runs \<open>worker_task\<close>, which loops until
  \<open>stop_event\<close> is set, so \<open>is_alive()\<close> is true for it.\<close>

primrec spawn_workers :: "nat list \<Rightarrow> state \<Rightarrow> state" where
  "spawn_workers [] s = s"
| "spawn_workers (i # rest) s =
     spawn_workers rest
       (s\<lparr>workers := workers s @
            [\<lparr>worker_id = int (length (workers s)) + int i, is_alive = True\<rparr>]\<rparr>)"

text \<open>\<open>len([w for w in workers if w.is_alive()])\<close> (lines 142 and 165).\<close>

definition alive_count :: "state \<Rightarrow> nat" where
  "alive_count s = length (filter is_alive (workers s))"

text \<open>Lines 142-162: the adjustment of the pool towards the target.\<close>

definition adjust_workers :: "int \<Rightarrow> state \<Rightarrow> state" where
  "adjust_workers target s =
     (let current = alive_count s in
      if target > int current then
        let s1 = spawn_workers [0..<nat (target - int current)] s
        in s1\<lparr>logged := logged s1 @ [ScaledUp target current]\<rparr>
      else if target < int current then
        let to_stop = int current - target
        in s\<lparr>logged := logged s @ [ScalingDown to_stop current target]\<rparr>
      else s)"

text \<open>What one round of the \<open>while\<close> loop reads from its environment: the elapsed
  seconds \<open>int(time.time() - start_time)\<close>, the draw of \<open>random.random()\<close>, and the
  samples \<open>memory_info.rss\<close> and \<open>process.cpu_percent()\<close>.\<close>

record tick_input =
  tick_elapsed :: int
  tick_random :: real
  tick_rss :: int
  tick_cpu_percent :: real

text \<open>Lines 138-178: one round of the loop. An exception of the \<open>try\<close> block is logged
  and the round ends without the gauges being set; the statements that raise are in
  \<open>calculate_target_workers\<close>. The CPU gauge receives the float quotient
  \<open>process.cpu_percent() / 100.0\<close>.\<close>

definition manage_workers_tick :: "(real \<Rightarrow> real) \<Rightarrow> state \<Rightarrow> tick_input \<Rightarrow> state" where
  "manage_workers_tick msin s inp =
     (let r =
        (if ENABLED s then
           (case calculate_target_workers msin s (PATTERN_MODE s) (tick_elapsed inp)
                   (tick_random inp) of
              Inl (e, s1) \<Rightarrow> Inl (e, s1)
            | Inr (target, s1) \<Rightarrow>
                let s2 = adjust_workers target s1
                in Inr (s2\<lparr>active_workers := alive_count s2,
                           load_level := current_load_level s2\<rparr>))
         else Inr s)
      in case r of
           Inl (e, s1) \<Rightarrow> s1\<lparr>logged := logged s1 @ [ManagerError e]\<rparr>
         | Inr s3 \<Rightarrow> s3\<lparr>memory_usage_bytes := tick_rss inp,
                        cpu_usage_estimate := fl (tick_cpu_percent inp / 100)\<rparr>)"

text \<open>The \<open>while not stop_event.is_set()\<close> loop, run for as many rounds as there are
  inputs.\<close>

fun manage_workers :: "(real \<Rightarrow> real) \<Rightarrow> state \<Rightarrow> tick_input list \<Rightarrow> state" where
  "manage_workers msin s [] = s"
| "manage_workers msin s (inp # inps) =
     (if stop_event s then s else manage_workers msin (manage_workers_tick msin s inp) inps)"

subsection \<open>Reading the request body\<close>

text \<open>Python's truth value of a parsed JSON value, for \<open>request.get_json() or {}\<close>.
  A request whose body is not JSON is refused inside \<open>get_json\<close>, before the handler
  assigns anything; the handlers below start from the parsed value.\<close>

fun truthy :: "json \<Rightarrow> bool" where
  "truthy JNull = False"
| "truthy (JBool b) = b"
| "truthy (JInt i) = (i \<noteq> 0)"
| "truthy (JFloat x) = (x \<noteq> 0)"
| "truthy JNaN = True"
| "truthy JInfinity = True"
| "truthy (JStr t) = (t \<noteq> [])"
| "truthy (JList xs) = (xs \<noteq> [])"
| "truthy (JDict kvs) = (kvs \<noteq> [])"

definition substring :: "string \<Rightarrow> string \<Rightarrow> bool" where
  "substring k t = list_ex (\<lambda>i. take (length k) (drop i t) = k) [0..<Suc (length t)]"

text \<open>\<open>key in data\<close> for a string key: a key of a dict, an element of a list, a
  substring of a string; a TypeError on a value that is not iterable.\<close>

fun contains :: "string \<Rightarrow> json \<Rightarrow> py_error + bool" where
  "contains key (JDict kvs) = Inr (map_of kvs key \<noteq> None)"
| "contains key (JList xs) = Inr (JStr key \<in> set xs)"
| "contains key (JStr t) = Inr (substring key t)"
| "contains key _ = Inl TypeError"

text \<open>\<open>data[key]\<close> for a string key: lists and strings take integer indices only.\<close>

fun getitem :: "json \<Rightarrow> string \<Rightarrow> py_error + json" where
  "getitem (JDict kvs) key = (case map_of kvs key of None \<Rightarrow> Inl KeyError | Some v \<Rightarrow> Inr v)"
| "getitem _ key = Inl TypeError"

text \<open>\<open>data[key]\<close> guarded by \<open>if key in data\<close>: \<open>None\<close> when the guard is false.\<close>

definition field :: "json \<Rightarrow> string \<Rightarrow> py_error + json option" where
  "field data key =
     (case contains key data of
        Inl e \<Rightarrow> Inl e
      | Inr present \<Rightarrow>
          if present then (case getitem data key of Inl e \<Rightarrow> Inl e | Inr v \<Rightarrow> Inr (Some v))
          else Inr None)"

subsection \<open>\<open>int(...)\<close> on a parsed JSON value\<close>

definition is_space :: "char \<Rightarrow> bool" where
  "is_space c = (c \<in> set [CHR '' '', CHR 0x09, CHR 0x0A, CHR 0x0B, CHR 0x0C, CHR 0x0D])"

definition strip :: "string \<Rightarrow> string" where
  "strip t = rev (dropWhile is_space (rev (dropWhile is_space t)))"

definition digit_val :: "char \<Rightarrow> nat option" where
  "digit_val c =
     (let n = of_char c :: nat in if 48 \<le> n \<and> n \<le> 57 then Some (n - 48) else None)"

text \<open>The digits after the first one: a digit, or one underscore followed by a digit.\<close>

fun parse_digits :: "nat \<Rightarrow> string \<Rightarrow> nat option" where
  "parse_digits acc [] = Some acc"
| "parse_digits acc (c # cs) =
     (if c = CHR ''_'' then
        (case cs of
           [] \<Rightarrow> None
         | d # ds \<Rightarrow>
             (case digit_val d of None \<Rightarrow> None | Some v \<Rightarrow> parse_digits (10 * acc + v) ds))
      else
        (case digit_val c of None \<Rightarrow> None | Some v \<Rightarrow> parse_digits (10 * acc + v) cs))"

text \<open>\<open>int(t)\<close> for a string of ASCII characters: surrounding whitespace, an optional
  sign, decimal digits with single underscores between them.\<close>

definition int_of_str :: "string \<Rightarrow> py_error + int" where
  "int_of_str t =
     (let u = strip t;
          neg = (case u of c # _ \<Rightarrow> c = CHR ''-'' | [] \<Rightarrow> False);
          digits = (case u of c # cs \<Rightarrow> if c = CHR ''-'' \<or> c = CHR ''+'' then cs else u | [] \<Rightarrow> [])
      in case digits of
           [] \<Rightarrow> Inl ValueError
         | d # ds \<Rightarrow>
             (case digit_val d of
                None \<Rightarrow> Inl ValueError
              | Some v \<Rightarrow>
                  (case parse_digits v ds of
                     None \<Rightarrow> Inl ValueError
                   | Some n \<Rightarrow> Inr (if neg then - int n else int n))))"

fun py_int :: "json \<Rightarrow> py_error + int" where
  "py_int JNull = Inl TypeError"
| "py_int (JBool b) = Inr (if b then 1 else 0)"
| "py_int (JInt i) = Inr i"
| "py_int (JFloat x) = Inr (int_of_float x)"
| "py_int JNaN = Inl ValueError"
| "py_int JInfinity = Inl OverflowError"
| "py_int (JStr t) = int_of_str t"
| "py_int (JList xs) = Inl TypeError"
| "py_int (JDict kvs) = Inl TypeError"

text \<open>\<open>int(data[key])\<close> guarded by \<open>if key in data\<close>.\<close>

definition int_field :: "json \<Rightarrow> string \<Rightarrow> py_error + int option" where
  "int_field data key =
     (case field data key of
        Inl e \<Rightarrow> Inl e
      | Inr None \<Rightarrow> Inr None
      | Inr (Some v) \<Rightarrow> (case py_int v of Inl e \<Rightarrow> Inl e | Inr n \<Rightarrow> Inr (Some n)))"

subsection \<open>The handlers \<open>update_config\<close> (lines 224-262) and \<open>set_pattern\<close> (lines 265-287)\<close>

record response =
  status_code :: nat
  response_json :: json

text \<open>\<open>requests_total.labels(method, endpoint, status).inc()\<close>.\<close>

definition inc_requests :: "string \<times> string \<times> string \<Rightarrow> state \<Rightarrow> state" where
  "inc_requests labels s =
     s\<lparr>requests_total := (requests_total s)(labels := Suc (requests_total s labels))\<rparr>"

text \<open>
  The handler assigns the globals one after the other, so an exception in a later
  coercion leaves the earlier assignments in place: the result is the state reached and
  either the exception (the framework answers 500) or the response.
\<close>

definition update_config :: "json \<Rightarrow> state \<Rightarrow> state \<times> (py_error + response)" where
  "update_config request_json s =
     (let data = (if truthy request_json then request_json else JDict []) in
      case field data ''pattern_mode'' of Inl e \<Rightarrow> (s, Inl e) | Inr v1 \<Rightarrow>
     (let s1 = (case v1 of None \<Rightarrow> s
                | Some v \<Rightarrow> s\<lparr>PATTERN_MODE := v, logged := logged s @ [PatternModeChanged v]\<rparr>) in
      case int_field data ''base_load'' of Inl e \<Rightarrow> (s1, Inl e) | Inr v2 \<Rightarrow>
     (let s2 = (case v2 of None \<Rightarrow> s1
                | Some n \<Rightarrow> s1\<lparr>BASE_LOAD := n, logged := logged s1 @ [BaseLoadChanged n]\<rparr>) in
      case int_field data ''max_load'' of Inl e \<Rightarrow> (s2, Inl e) | Inr v3 \<Rightarrow>
     (let s3 = (case v3 of None \<Rightarrow> s2
                | Some n \<Rightarrow> s2\<lparr>MAX_LOAD := n, logged := logged s2 @ [MaxLoadChanged n]\<rparr>) in
      case int_field data ''cycle_duration'' of Inl e \<Rightarrow> (s3, Inl e) | Inr v4 \<Rightarrow>
     (let s4 = (case v4 of None \<Rightarrow> s3
                | Some n \<Rightarrow> s3\<lparr>CYCLE_DURATION := n, logged := logged s3 @ [CycleDurationChanged n]\<rparr>) in
      case int_field data ''workers'' of Inl e \<Rightarrow> (s4, Inl e) | Inr v5 \<Rightarrow>
     (let s5 = (case v5 of None \<Rightarrow> s4
                | Some n \<Rightarrow> s4\<lparr>manual_workers := n, logged := logged s4 @ [ManualWorkersSet n]\<rparr>) in
      (inc_requests (''POST'', ''/config'', ''200'') s5,
       Inr \<lparr>status_code = 200,
            response_json = JDict
              [(''status'', JStr ''success''),
               (''config'', JDict
                  [(''pattern_mode'', PATTERN_MODE s5),
                   (''base_load'', JInt (BASE_LOAD s5)),
                   (''max_load'', JInt (MAX_LOAD s5)),
                   (''cycle_duration'', JInt (CYCLE_DURATION s5)),
                   (''manual_workers'', JInt (manual_workers s5))])]\<rparr>)))))))"

definition valid_patterns :: "string list" where
  "valid_patterns = [''wave'', ''spike'', ''random'', ''manual'']"

text \<open>How an f-string renders a list of strings that hold no quote, backslash or control
  character: each in single quotes, separated by a comma and a space, in brackets.\<close>

fun join_repr :: "string list \<Rightarrow> string" where
  "join_repr [] = []"
| "join_repr [x] = [CHR 0x27] @ x @ [CHR 0x27]"
| "join_repr (x # y # ys) = [CHR 0x27] @ x @ [CHR 0x27] @ '', '' @ join_repr (y # ys)"

definition repr_list :: "string list \<Rightarrow> string" where
  "repr_list xs = ''['' @ join_repr xs @ '']''"

definition set_pattern :: "string \<Rightarrow> state \<Rightarrow> state \<times> response" where
  "set_pattern pattern_name s =
     (if pattern_name \<notin> set valid_patterns then
        (inc_requests (''POST'', ''/pattern'', ''400'') s,
         \<lparr>status_code = 400,
          response_json = JDict
            [(''error'', JStr (''Invalid pattern. Must be one of: '' @ repr_list valid_patterns))]\<rparr>)
      else
        (inc_requests (''POST'', ''/pattern'', ''200'')
           (s\<lparr>PATTERN_MODE := JStr pattern_name,
              logged := logged s @ [PatternChanged pattern_name]\<rparr>),
         \<lparr>status_code = 200,
          response_json = JDict [(''status'', JStr ''success''), (''pattern'', JStr pattern_name)]\<rparr>))"

subsection \<open>Reading a JSON object field by field\<close>

text \<open>For the items \<open>kvs\<close> of a JSON object: whether the value under \<open>key\<close>, if there
  is one, is accepted by \<open>int\<close>; and the value a numeric global has after its field was
  handled without an earlier failure (the coerced value when the field is present and
  coerces, the old value otherwise).\<close>

definition coerces :: "(string \<times> json) list \<Rightarrow> string \<Rightarrow> bool" where
  "coerces kvs key =
     (case map_of kvs key of
        None \<Rightarrow> True
      | Some v \<Rightarrow> (case py_int v of Inl _ \<Rightarrow> False | Inr _ \<Rightarrow> True))"

definition requested :: "(string \<times> json) list \<Rightarrow> string \<Rightarrow> int \<Rightarrow> int" where
  "requested kvs key old =
     (case map_of kvs key of
        None \<Rightarrow> old
      | Some v \<Rightarrow> (case py_int v of Inl _ \<Rightarrow> old | Inr n \<Rightarrow> n))"

subsection \<open>An instance of the library's sine\<close>

text \<open>The closed examples below need a value for the parameter \<open>msin\<close>. They use the
  sine of period \<open>2 * math.pi\<close>, correctly rounded: it is 0 at 0 and 1 at \<open>math.pi / 2\<close>,
  as the sine of the C library is at these two doubles.\<close>

definition example_sin :: "real \<Rightarrow> real" where
  "example_sin x = fl (sin (x * pi / pi_double))"

subsection \<open>The formulas of the specification\<close>

text \<open>The specification words the wave and spike patterns with these formulas; they
  follow its text, with \<open>round\<close> rounding to the nearest integer, and are compared
  with the code below.\<close>

definition spec_phase :: "int \<Rightarrow> int \<Rightarrow> real" where
  "spec_phase elapsed cycle_duration = real_of_int (elapsed mod cycle_duration) / real_of_int cycle_duration"

definition spec_wave_factor :: "real \<Rightarrow> real" where
  "spec_wave_factor phase = (sin (2 * pi * phase) + 1) / 2"

definition spec_wave_target :: "int \<Rightarrow> int \<Rightarrow> real \<Rightarrow> int" where
  "spec_wave_target base mx factor = base + round (real_of_int (mx - base) * factor)"

definition spec_spike_high :: "real \<Rightarrow> bool" where
  "spec_spike_high phase = (phase < 1 / 10 \<or> (1 / 2 \<le> phase \<and> phase < 6 / 10))"

definition spec_spike_low_target :: "int \<Rightarrow> int \<Rightarrow> int" where
  "spec_spike_low_target base mx = base + round (2 / 10 * real_of_int (mx - base))"

section \<open>Properties\<close>

subsection \<open>Rounding to the nearest double\<close>

lemma rhe_cases: "round_half_even y = \<lfloor>y\<rfloor> \<or> round_half_even y = \<lfloor>y\<rfloor> + 1"
  by (simp add: round_half_even_def Let_def)

lemma rhe_of_int: "round_half_even (real_of_int n) = n"
  by (simp add: round_half_even_def)

lemma rhe_le: "y \<le> real_of_int n \<Longrightarrow> round_half_even y \<le> n"
proof -
  assume le: "y \<le> real_of_int n"
  show ?thesis
  proof (cases "y = real_of_int n")
    case True
    then show ?thesis by (simp add: rhe_of_int)
  next
    case False
    with le have "y < real_of_int n" by simp
    then have "\<lfloor>y\<rfloor> < n" by (simp add: floor_less_iff)
    with rhe_cases [of y] show ?thesis by auto
  qed
qed

lemma rhe_ge: "real_of_int n \<le> y \<Longrightarrow> n \<le> round_half_even y"
proof -
  assume "real_of_int n \<le> y"
  then have "n \<le> \<lfloor>y\<rfloor>" by (simp add: le_floor_iff)
  with rhe_cases [of y] show ?thesis by auto
qed

lemma rhe_mono: "x \<le> y \<Longrightarrow> round_half_even x \<le> round_half_even y"
proof -
  assume le: "x \<le> y"
  have fm: "\<lfloor>x\<rfloor> \<le> \<lfloor>y\<rfloor>" using le by (rule floor_mono)
  show ?thesis
  proof (cases "\<lfloor>x\<rfloor> = \<lfloor>y\<rfloor>")
    case True
    then have "x - real_of_int \<lfloor>x\<rfloor> \<le> y - real_of_int \<lfloor>y\<rfloor>" using le by simp
    with True show ?thesis by (auto simp add: round_half_even_def Let_def)
  next
    case False
    with fm have "\<lfloor>x\<rfloor> + 1 \<le> \<lfloor>y\<rfloor>" by simp
    with rhe_cases [of x] rhe_cases [of y] show ?thesis by auto
  qed
qed

lemma rhe_minus: "round_half_even (- y) = - round_half_even y"
proof (cases "y \<in> \<int>")
  case True
  then obtain n where "y = real_of_int n" by (auto elim: Ints_cases)
  then have "- y = real_of_int (- n)" by simp
  then show ?thesis using \<open>y = real_of_int n\<close> by (simp only: rhe_of_int)
next
  case False
  then have "y \<noteq> real_of_int \<lfloor>y\<rfloor>" by (metis Ints_of_int)
  then have f: "\<lfloor>- y\<rfloor> = - \<lfloor>y\<rfloor> - 1"
    by (simp add: floor_minus ceiling_altdef)
  have r: "- y - real_of_int (- \<lfloor>y\<rfloor> - 1) = 1 - (y - real_of_int \<lfloor>y\<rfloor>)" by simp
  show ?thesis
    unfolding round_half_even_def Let_def f r by auto
qed


lemma pow2_powr: "pow2 k = 2 powr real_of_int k"
  by (simp add: pow2_def powr_int)

lemma pow2_pos: "0 < pow2 k"
  by (simp add: pow2_powr)

lemma pow2_add: "pow2 (a + b) = pow2 a * pow2 b"
  by (simp add: pow2_powr powr_add)

lemma pow2_nat: "pow2 (int n) = real_of_int (2 ^ n)"
  by (simp add: pow2_def)

lemma pow2_mono: "a \<le> b \<Longrightarrow> pow2 a \<le> pow2 b"
  by (simp add: pow2_powr)

lemma pow2_less_cancel: "pow2 a < pow2 b \<Longrightarrow> a < b"
  by (simp add: pow2_powr)

lemma exponent_minus: "exponent (- x) = exponent x"
  by (simp add: exponent_def)

lemma ulp_minus: "ulp (- x) = ulp x"
  by (simp add: ulp_def exponent_minus)

lemma ulp_pos: "0 < ulp x"
  by (simp add: ulp_def pow2_pos)

lemma fl_minus: "fl (- x) = - fl x"
  by (simp add: fl_def ulp_minus rhe_minus)

lemma fl_zero: "fl 0 = 0"
  by (simp add: fl_def)

lemma exponent_ge: "- 1022 \<le> exponent x"
  by (simp add: exponent_def)

lemma exponent_mono: "0 < x \<Longrightarrow> x \<le> y \<Longrightarrow> exponent x \<le> exponent y"
proof -
  assume pos: "0 < x" and le: "x \<le> y"
  then have "log 2 \<bar>x\<bar> \<le> log 2 \<bar>y\<bar>" by simp
  then have "\<lfloor>log 2 \<bar>x\<bar>\<rfloor> \<le> \<lfloor>log 2 \<bar>y\<bar>\<rfloor>" by (rule floor_mono)
  then show ?thesis by (simp add: exponent_def)
qed

lemma floor_log_bounds:
  assumes "0 < x"
  shows "pow2 \<lfloor>log 2 x\<rfloor> \<le> x" and "x < pow2 (\<lfloor>log 2 x\<rfloor> + 1)"
proof -
  have "2 powr real_of_int \<lfloor>log 2 x\<rfloor> \<le> x \<and> x < 2 powr (real_of_int \<lfloor>log 2 x\<rfloor> + 1)"
    using assms floor_log_eq_powr_iff [of x 2 "\<lfloor>log 2 x\<rfloor>"] by simp
  then show "pow2 \<lfloor>log 2 x\<rfloor> \<le> x" and "x < pow2 (\<lfloor>log 2 x\<rfloor> + 1)"
    by (simp_all add: pow2_powr)
qed

lemma below_next_power: "0 < x \<Longrightarrow> x < pow2 (exponent x + 1)"
proof -
  assume pos: "0 < x"
  have "\<lfloor>log 2 x\<rfloor> \<le> exponent x" using pos by (simp add: exponent_def)
  then have "pow2 (\<lfloor>log 2 x\<rfloor> + 1) \<le> pow2 (exponent x + 1)"
    by (intro pow2_mono) simp
  with floor_log_bounds(2) [OF pos] show ?thesis by (rule less_le_trans)
qed

lemma above_power: "0 < x \<Longrightarrow> - 1022 < exponent x \<Longrightarrow> pow2 (exponent x) \<le> x"
proof -
  assume pos: "0 < x" and "- 1022 < exponent x"
  then have "exponent x = \<lfloor>log 2 x\<rfloor>" by (simp add: exponent_def max_def split: if_splits)
  with floor_log_bounds(1) [OF pos] show ?thesis by simp
qed

lemma power_as_ulps: "pow2 (exponent x - 52 + int k) = real_of_int (2 ^ k) * ulp x"
proof -
  have "exponent x - 52 + int k = int k + (exponent x - 52)" by simp
  then have "pow2 (exponent x - 52 + int k) = pow2 (int k) * pow2 (exponent x - 52)"
    by (simp only: pow2_add)
  then show ?thesis by (simp only: pow2_nat ulp_def)
qed

lemma next_power_as_ulps: "pow2 (exponent x + 1) = real_of_int (2 ^ 53) * ulp x"
proof -
  have eq: "exponent x + 1 = exponent x - 52 + int 53" by simp
  show ?thesis by (subst eq) (rule power_as_ulps)
qed

lemma this_power_as_ulps: "pow2 (exponent x) = real_of_int (2 ^ 52) * ulp x"
proof -
  have eq: "exponent x = exponent x - 52 + int 52" by simp
  show ?thesis by (subst eq) (rule power_as_ulps)
qed

lemma scaled_le: "x \<le> real_of_int n * ulp x \<Longrightarrow> fl x \<le> real_of_int n * ulp x"
proof (cases "x = 0")
  case True
  assume "x \<le> real_of_int n * ulp x"
  with True ulp_pos [of x] have "0 \<le> real_of_int n" by (simp add: zero_le_mult_iff)
  then show ?thesis using True ulp_pos [of x] by (simp add: fl_zero)
next
  case False
  assume "x \<le> real_of_int n * ulp x"
  then have "x / ulp x \<le> real_of_int n" using ulp_pos [of x] by (simp add: pos_divide_le_eq)
  then have "round_half_even (x / ulp x) \<le> n" by (rule rhe_le)
  then have "real_of_int (round_half_even (x / ulp x)) \<le> real_of_int n" by linarith
  then have "real_of_int (round_half_even (x / ulp x)) * ulp x \<le> real_of_int n * ulp x"
    using ulp_pos [of x] by (simp only: mult_le_cancel_right_pos)
  then show ?thesis using False by (simp only: fl_def if_False)
qed

lemma scaled_ge: "real_of_int n * ulp x \<le> x \<Longrightarrow> real_of_int n * ulp x \<le> fl x"
proof (cases "x = 0")
  case True
  assume "real_of_int n * ulp x \<le> x"
  then show ?thesis using True by (simp add: fl_zero)
next
  case False
  assume "real_of_int n * ulp x \<le> x"
  then have "real_of_int n \<le> x / ulp x" using ulp_pos [of x] by (simp add: pos_le_divide_eq)
  then have "n \<le> round_half_even (x / ulp x)" by (rule rhe_ge)
  then have "real_of_int n \<le> real_of_int (round_half_even (x / ulp x))" by linarith
  then have "real_of_int n * ulp x \<le> real_of_int (round_half_even (x / ulp x)) * ulp x"
    using ulp_pos [of x] by (simp only: mult_le_cancel_right_pos)
  then show ?thesis using False by (simp only: fl_def if_False)
qed

lemma fl_pos_upper: "0 < x \<Longrightarrow> fl x \<le> pow2 (exponent x + 1)"
proof -
  assume pos: "0 < x"
  have "x \<le> real_of_int (2 ^ 53) * ulp x"
    using below_next_power [OF pos] by (simp only: next_power_as_ulps)
  then have "fl x \<le> real_of_int (2 ^ 53) * ulp x" by (rule scaled_le)
  then show ?thesis by (simp only: next_power_as_ulps)
qed

lemma fl_pos_lower: "0 < x \<Longrightarrow> - 1022 < exponent x \<Longrightarrow> pow2 (exponent x) \<le> fl x"
proof -
  assume pos: "0 < x" and big: "- 1022 < exponent x"
  have "real_of_int (2 ^ 52) * ulp x \<le> x"
    using above_power [OF pos big] by (simp only: this_power_as_ulps)
  then have "real_of_int (2 ^ 52) * ulp x \<le> fl x" by (rule scaled_ge)
  then show ?thesis by (simp only: this_power_as_ulps)
qed

lemma fl_nonneg: "0 \<le> x \<Longrightarrow> 0 \<le> fl x"
  using scaled_ge [of 0 x] by simp

lemma fl_mono_pos: "0 < x \<Longrightarrow> x \<le> y \<Longrightarrow> fl x \<le> fl y"
proof -
  assume pos: "0 < x" and le: "x \<le> y"
  then have ypos: "0 < y" by simp
  have e: "exponent x \<le> exponent y" using pos le by (rule exponent_mono)
  show ?thesis
  proof (cases "exponent x = exponent y")
    case True
    then have u: "ulp y = ulp x" by (simp add: ulp_def)
    have "x / ulp x \<le> y / ulp x" using le ulp_pos [of x] by (simp add: divide_right_mono)
    then have "round_half_even (x / ulp x) \<le> round_half_even (y / ulp x)" by (rule rhe_mono)
    then have "real_of_int (round_half_even (x / ulp x)) \<le> real_of_int (round_half_even (y / ulp x))"
      by linarith
    then have "real_of_int (round_half_even (x / ulp x)) * ulp x
               \<le> real_of_int (round_half_even (y / ulp x)) * ulp x"
      using ulp_pos [of x] by (simp only: mult_le_cancel_right_pos)
    then show ?thesis using pos ypos u by (simp add: fl_def)
  next
    case False
    with e have lt: "exponent x + 1 \<le> exponent y" by simp
    with exponent_ge [of x] have big: "- 1022 < exponent y" by simp
    have "fl x \<le> pow2 (exponent x + 1)" using pos by (rule fl_pos_upper)
    also have "\<dots> \<le> pow2 (exponent y)" using lt by (rule pow2_mono)
    also have "\<dots> \<le> fl y" using ypos big by (rule fl_pos_lower)
    finally show ?thesis .
  qed
qed

lemma fl_mono: "x \<le> y \<Longrightarrow> fl x \<le> fl y"
proof -
  assume le: "x \<le> y"
  show ?thesis
  proof (cases "0 < x")
    case True
    then show ?thesis using le by (rule fl_mono_pos)
  next
    case False
    then have xn: "x \<le> 0" by simp
    show ?thesis
    proof (cases "0 \<le> y")
      case True
      have "0 \<le> fl (- x)" using xn by (intro fl_nonneg) simp
      then have "fl x \<le> 0" by (simp add: fl_minus)
      also have "0 \<le> fl y" using True by (rule fl_nonneg)
      finally show ?thesis .
    next
      case False
      then have "0 < - y" "- y \<le> - x" using le by simp_all
      then have "fl (- y) \<le> fl (- x)" by (rule fl_mono_pos)
      then show ?thesis by (simp add: fl_minus)
    qed
  qed
qed

lemma fl_representable: "representable x \<Longrightarrow> fl x = x"
proof (cases "x = 0")
  case True
  then show ?thesis by (simp add: fl_zero)
next
  case False
  assume "representable x"
  then obtain m j where m: "\<bar>m\<bar> < 2 ^ 53" and j: "- 1074 \<le> j"
    and x: "x = real_of_int m * pow2 j"
    by (auto simp add: representable_def)
  have ax: "\<bar>x\<bar> = real_of_int \<bar>m\<bar> * pow2 j"
    using pow2_pos [of j] by (simp add: x abs_mult)
  have apos: "0 < \<bar>x\<bar>" using False by simp
  have "real_of_int \<bar>m\<bar> < real_of_int (2 ^ 53)" using m by linarith
  then have "real_of_int \<bar>m\<bar> * pow2 j < real_of_int (2 ^ 53) * pow2 j"
    using pow2_pos [of j] by (simp only: mult_less_cancel_right_pos)
  also have "real_of_int (2 ^ 53) * pow2 j = pow2 (int 53 + j)"
    by (simp only: pow2_add pow2_nat)
  finally have lt: "\<bar>x\<bar> < pow2 (int 53 + j)" by (simp only: ax)
  have "pow2 \<lfloor>log 2 \<bar>x\<bar>\<rfloor> \<le> \<bar>x\<bar>" using apos by (rule floor_log_bounds(1))
  from this lt have "pow2 \<lfloor>log 2 \<bar>x\<bar>\<rfloor> < pow2 (int 53 + j)" by (rule le_less_trans)
  then have "\<lfloor>log 2 \<bar>x\<bar>\<rfloor> < int 53 + j" by (rule pow2_less_cancel)
  then have e: "exponent x - 52 \<le> j" using j by (simp add: exponent_def)
  define n where "n = nat (j - (exponent x - 52))"
  have jn: "j = int n + (exponent x - 52)" using e by (simp add: n_def)
  have "pow2 j = pow2 (int n) * pow2 (exponent x - 52)"
    by (subst jn) (simp only: pow2_add)
  then have pj: "pow2 j = real_of_int (2 ^ n) * ulp x"
    by (simp only: pow2_nat ulp_def)
  have "real_of_int m * pow2 j = real_of_int m * (real_of_int (2 ^ n) * ulp x)"
    by (simp only: pj)
  also have "\<dots> = real_of_int (m * 2 ^ n) * ulp x"
    by (simp only: of_int_mult mult.assoc)
  finally have xe: "x = real_of_int (m * 2 ^ n) * ulp x"
    by (rule trans [OF x])
  have "x \<le> real_of_int (m * 2 ^ n) * ulp x" by (rule eq_refl [OF xe])
  then have le: "fl x \<le> real_of_int (m * 2 ^ n) * ulp x" by (rule scaled_le)
  have "real_of_int (m * 2 ^ n) * ulp x \<le> x" by (rule eq_refl [OF xe [symmetric]])
  then have ge: "real_of_int (m * 2 ^ n) * ulp x \<le> fl x" by (rule scaled_ge)
  from le ge have "fl x = real_of_int (m * 2 ^ n) * ulp x" by (rule antisym)
  then show ?thesis by (rule trans [OF _ xe [symmetric]])
qed

lemma fl_le: "x \<le> h \<Longrightarrow> representable h \<Longrightarrow> fl x \<le> h"
  using fl_mono [of x h] by (simp add: fl_representable)

lemma fl_ge: "l \<le> x \<Longrightarrow> representable l \<Longrightarrow> l \<le> fl x"
  using fl_mono [of l x] by (simp add: fl_representable)

lemma representable_int: "\<bar>n\<bar> \<le> 2 ^ 53 \<Longrightarrow> representable (real_of_int n)"
proof (cases "\<bar>n\<bar> = 2 ^ 53")
  case True
  then have "n = 2 ^ 53 \<or> n = - (2 ^ 53)" by linarith
  then have "real_of_int n = real_of_int (if n < 0 then - 1 else 1) * pow2 53"
    by (auto simp add: pow2_def)
  moreover have "\<bar>if n < 0 then - 1 else (1::int)\<bar> < 2 ^ 53" by simp
  ultimately show ?thesis unfolding representable_def by (intro exI [of _ "if n < 0 then - 1 else 1"] exI [of _ 53]) simp
next
  case False
  assume "\<bar>n\<bar> \<le> 2 ^ 53"
  with False have "\<bar>n\<bar> < 2 ^ 53" by linarith
  then show ?thesis unfolding representable_def
    by (intro exI [of _ n] exI [of _ 0]) (simp add: pow2_def)
qed

lemma representableI:
  "\<bar>m\<bar> < 2 ^ 53 \<Longrightarrow> - 1074 \<le> j \<Longrightarrow> x = real_of_int m * pow2 j \<Longrightarrow> representable x"
  unfolding representable_def by blast

lemma fl_half: "fl (1 / 2) = 1 / 2"
  by (rule fl_representable, rule representableI [of 1 "- 1"]) (simp_all add: pow2_def)

lemma fl_int: "\<bar>n\<bar> \<le> 2 ^ 53 \<Longrightarrow> fl (real_of_int n) = real_of_int n"
  by (rule fl_representable, rule representable_int)

subsection \<open>Truncation\<close>

lemma int_of_float_mono: "x \<le> y \<Longrightarrow> int_of_float x \<le> int_of_float y"
proof -
  assume le: "x \<le> y"
  show ?thesis
  proof (cases "x < 0")
    case True
    note xneg = this
    show ?thesis
    proof (cases "y < 0")
      case True
      with xneg le show ?thesis by (simp add: int_of_float_def ceiling_mono)
    next
      case False
      have "\<lceil>x\<rceil> \<le> 0" using xneg by (simp add: ceiling_le_zero)
      moreover have "0 \<le> \<lfloor>y\<rfloor>" using False by simp
      ultimately have "\<lceil>x\<rceil> \<le> \<lfloor>y\<rfloor>" by (rule order_trans)
      then show ?thesis using xneg False by (simp add: int_of_float_def)
    qed
  next
    case False
    with le have "\<not> y < 0" by simp
    with False le show ?thesis by (simp add: int_of_float_def floor_mono)
  qed
qed

lemma int_of_float_of_int: "int_of_float (real_of_int n) = n"
  by (simp add: int_of_float_def)

subsection \<open>The decimal literals and the quotient of line 103\<close>

lemma fl_eval:
  assumes "pow2 e \<le> \<bar>x\<bar>" and "\<bar>x\<bar> < pow2 (e + 1)" and "- 1022 \<le> e"
  shows "fl x = real_of_int (round_half_even (x / pow2 (e - 52))) * pow2 (e - 52)"
proof -
  have pos: "0 < \<bar>x\<bar>" using assms(1) pow2_pos [of e] by linarith
  have "2 powr real_of_int e \<le> \<bar>x\<bar> \<and> \<bar>x\<bar> < 2 powr (real_of_int e + 1)"
    using assms(1,2) by (simp add: pow2_powr)
  then have "\<lfloor>log 2 \<bar>x\<bar>\<rfloor> = e"
    using pos floor_log_eq_powr_iff [of "\<bar>x\<bar>" 2 e] by simp
  then have "exponent x = e" using assms(3) by (simp add: exponent_def)
  then have "ulp x = pow2 (e - 52)" by (simp add: ulp_def)
  moreover have "x \<noteq> 0" using pos by simp
  ultimately show ?thesis by (simp add: fl_def)
qed

lemma fl_tenth: "fl (1 / 10) = 7205759403792794 / 2 ^ 56"
  by (subst fl_eval [of "- 4"]) (simp_all add: pow2_def round_half_even_def)

lemma fl_fifth: "fl (1 / 5) = 7205759403792794 / 2 ^ 55"
  by (subst fl_eval [of "- 3"]) (simp_all add: pow2_def round_half_even_def)

lemma fl_three_fifths: "fl (3 / 5) = 5404319552844595 / 2 ^ 53"
  by (subst fl_eval [of "- 1"]) (simp_all add: pow2_def round_half_even_def)


lemma gap_below:
  fixes a b n d :: int
  assumes "0 < b" and "0 < d"
    and "real_of_int a / real_of_int b < real_of_int n / real_of_int d"
  shows "real_of_int a / real_of_int b
           \<le> real_of_int n / real_of_int d - 1 / (real_of_int d * real_of_int b)"
proof -
  have "real_of_int a * real_of_int d < real_of_int n * real_of_int b"
    using assms by (simp add: field_simps)
  then have "real_of_int (a * d) < real_of_int (n * b)" by simp
  then have "a * d < n * b" by (simp only: of_int_less_iff)
  then have "a * d + 1 \<le> n * b" by simp
  then have "real_of_int (a * d + 1) \<le> real_of_int (n * b)" by (simp only: of_int_le_iff)
  then have "real_of_int a * real_of_int d + 1 \<le> real_of_int n * real_of_int b" by simp
  then show ?thesis using assms(1,2) by (simp add: field_simps)
qed

lemma gap_small:
  fixes b d :: int
  assumes "0 < b" and "b \<le> 2 ^ 50" and "0 < d"
  shows "1 / (real_of_int d * 2 ^ 50) \<le> 1 / (real_of_int d * real_of_int b)"
proof -
  have "real_of_int b \<le> real_of_int (2 ^ 50)" using assms(2) by (simp only: of_int_le_iff)
  then have "real_of_int d * real_of_int b \<le> real_of_int d * 2 ^ 50"
    using assms(3) by (simp add: mult_left_mono)
  moreover have "0 < real_of_int d * real_of_int b" using assms(1,3) by simp
  ultimately show ?thesis by (simp add: frac_le)
qed

lemma gap:
  fixes a b n d :: int
  assumes "0 < b" and "b \<le> 2 ^ 50" and "0 < d"
    and "real_of_int a / real_of_int b < real_of_int n / real_of_int d"
  shows "real_of_int a / real_of_int b
           \<le> real_of_int n / real_of_int d - 1 / (real_of_int d * 2 ^ 50)"
  using gap_below [OF assms(1,3,4)] gap_small [OF assms(1,2,3)] by linarith

text \<open>The exact quotient of line 103 as a fraction of two natural numbers.\<close>

lemma phase_fraction:
  assumes "c \<noteq> 0"
  shows "\<exists>a b. 0 \<le> a \<and> a < b \<and> b = \<bar>c\<bar> \<and>
           real_of_int (t mod c) / real_of_int c = real_of_int a / real_of_int b"
proof (cases "0 < c")
  case True
  then have "0 \<le> t mod c" "t mod c < c" by simp_all
  with True show ?thesis by (intro exI [of _ "t mod c"] exI [of _ c]) simp
next
  case False
  with assms have neg: "c < 0" by simp
  then have "t mod c \<le> 0" "c < t mod c" by simp_all
  moreover have "real_of_int (t mod c) / real_of_int c
                 = real_of_int (- (t mod c)) / real_of_int (- c)" by simp
  ultimately show ?thesis using neg
    by (intro exI [of _ "- (t mod c)"] exI [of _ "- c"]) simp
qed

lemma below_tenth:
  fixes a b :: int
  assumes "0 \<le> a" "0 < b" "b \<le> 2 ^ 50"
  shows "(fl (real_of_int a / real_of_int b) < fl (1 / 10))
           = (real_of_int a / real_of_int b < 1 / 10)"
proof (cases "real_of_int a / real_of_int b < 1 / 10")
  case True
  let ?q = "real_of_int a / real_of_int b"
  let ?r = "7205759403792793 / 2 ^ 56 :: real"
  have "?q < real_of_int 1 / real_of_int 10" using True by simp
  then have "?q \<le> real_of_int 1 / real_of_int 10 - 1 / (real_of_int 10 * 2 ^ 50)"
    using assms(2,3) by (intro gap) simp_all
  moreover have "real_of_int 1 / real_of_int 10 - 1 / (real_of_int 10 * 2 ^ 50) \<le> ?r" by simp
  ultimately have "?q \<le> ?r" by (rule order_trans)
  then have "?q \<le> ?r" .
  moreover have "representable ?r"
    by (rule representableI [of 7205759403792793 "- 56"]) (simp_all add: pow2_def)
  ultimately have "fl ?q \<le> ?r" by (rule fl_le)
  also have "?r < fl (1 / 10)" by (simp add: fl_tenth)
  finally show ?thesis using True by simp
next
  case False
  then have "1 / 10 \<le> real_of_int a / real_of_int b" by simp
  then have "fl (1 / 10) \<le> fl (real_of_int a / real_of_int b)" by (rule fl_mono)
  with False show ?thesis by simp
qed

lemma below_three_fifths:
  fixes a b :: int
  assumes "0 \<le> a" "0 < b" "b \<le> 2 ^ 50"
  shows "(fl (real_of_int a / real_of_int b) < fl (3 / 5))
           = (real_of_int a / real_of_int b < 3 / 5)"
proof (cases "real_of_int a / real_of_int b < 3 / 5")
  case True
  let ?q = "real_of_int a / real_of_int b"
  let ?r = "5404319552844594 / 2 ^ 53 :: real"
  have "?q < real_of_int 3 / real_of_int 5" using True by simp
  then have "?q \<le> real_of_int 3 / real_of_int 5 - 1 / (real_of_int 5 * 2 ^ 50)"
    using assms(2,3) by (intro gap) simp_all
  moreover have "real_of_int 3 / real_of_int 5 - 1 / (real_of_int 5 * 2 ^ 50) \<le> ?r" by simp
  ultimately have "?q \<le> ?r" by (rule order_trans)
  then have "?q \<le> ?r" .
  moreover have "representable ?r"
    by (rule representableI [of 5404319552844594 "- 53"]) (simp_all add: pow2_def)
  ultimately have "fl ?q \<le> ?r" by (rule fl_le)
  also have "?r < fl (3 / 5)" by (simp add: fl_three_fifths)
  finally show ?thesis using True by simp
next
  case False
  then have "3 / 5 \<le> real_of_int a / real_of_int b" by simp
  then have "fl (3 / 5) \<le> fl (real_of_int a / real_of_int b)" by (rule fl_mono)
  with False show ?thesis by simp
qed

lemma at_least_half:
  fixes a b :: int
  assumes "0 \<le> a" "0 < b" "b \<le> 2 ^ 50"
  shows "(fl (1 / 2) \<le> fl (real_of_int a / real_of_int b))
           = (1 / 2 \<le> real_of_int a / real_of_int b)"
proof (cases "real_of_int a / real_of_int b < 1 / 2")
  case True
  let ?q = "real_of_int a / real_of_int b"
  let ?r = "1125899906842623 / 2 ^ 51 :: real"
  have "?q < real_of_int 1 / real_of_int 2" using True by simp
  then have "?q \<le> real_of_int 1 / real_of_int 2 - 1 / (real_of_int 2 * 2 ^ 50)"
    using assms(2,3) by (intro gap) simp_all
  moreover have "real_of_int 1 / real_of_int 2 - 1 / (real_of_int 2 * 2 ^ 50) \<le> ?r" by simp
  ultimately have "?q \<le> ?r" by (rule order_trans)
  then have "?q \<le> ?r" .
  moreover have "representable ?r"
    by (rule representableI [of 1125899906842623 "- 51"]) (simp_all add: pow2_def)
  ultimately have "fl ?q \<le> ?r" by (rule fl_le)
  also have "?r < fl (1 / 2)" by (simp add: fl_half)
  finally show ?thesis using True by simp
next
  case False
  then have "1 / 2 \<le> real_of_int a / real_of_int b" by simp
  then have "fl (1 / 2) \<le> fl (real_of_int a / real_of_int b)" by (rule fl_mono)
  with False show ?thesis by simp
qed


lemma representable_minus: "representable x \<Longrightarrow> representable (- x)"
proof -
  assume "representable x"
  then obtain m j where "\<bar>m\<bar> < 2 ^ 53" "- 1074 \<le> j" "x = real_of_int m * pow2 j"
    by (auto simp add: representable_def)
  then have "\<bar>- m\<bar> < 2 ^ 53" "- 1074 \<le> j" "- x = real_of_int (- m) * pow2 j" by simp_all
  then show ?thesis by (rule representableI)
qed

lemma fl_abs_le: "\<bar>x\<bar> \<le> h \<Longrightarrow> representable h \<Longrightarrow> \<bar>fl x\<bar> \<le> h"
proof -
  assume b: "\<bar>x\<bar> \<le> h" and r: "representable h"
  have "fl x \<le> h" using b r by (intro fl_le) simp_all
  moreover have "- h \<le> fl x" using b r by (intro fl_ge representable_minus) simp_all
  ultimately show ?thesis by simp
qed

lemma max_double_large: "2 ^ 54 \<le> max_double"
proof -
  have "(2::real) ^ 54 \<le> 2 ^ 971" by (rule power_increasing) simp_all
  also have "\<dots> = 1 * 2 ^ 971" by simp
  also have "\<dots> \<le> (2 ^ 53 - 1) * 2 ^ 971" by (rule mult_right_mono) simp_all
  finally show ?thesis by (simp only: max_double_def)
qed

lemma representable_pow54: "representable (2 ^ 54)"
  by (rule representableI [of 1 54]) (simp_all add: pow2_def)

lemma rounded_small: "\<bar>x\<bar> \<le> 2 ^ 54 \<Longrightarrow> rounded x = Some (fl x)"
proof -
  assume "\<bar>x\<bar> \<le> 2 ^ 54"
  then have "\<bar>fl x\<bar> \<le> 2 ^ 54" using representable_pow54 by (rule fl_abs_le)
  from this max_double_large have "\<bar>fl x\<bar> \<le> max_double" by (rule order_trans)
  then show ?thesis by (simp add: rounded_def)
qed

lemma float_of_int_exact: "\<bar>n\<bar> \<le> 2 ^ 53 \<Longrightarrow> float_of_int n = Inr (real_of_int n)"
proof -
  assume b: "\<bar>n\<bar> \<le> 2 ^ 53"
  then have "real_of_int \<bar>n\<bar> \<le> real_of_int (2 ^ 53)" by (simp only: of_int_le_iff)
  then have "\<bar>real_of_int n\<bar> \<le> 2 ^ 54" by simp
  then have "rounded (real_of_int n) = Some (fl (real_of_int n))" by (rule rounded_small)
  then show ?thesis using b by (simp add: float_of_int_def fl_int)
qed

lemma int_of_float_minus: "int_of_float (- x) = - int_of_float x"
  by (simp add: int_of_float_def ceiling_def)

lemma int_of_float_between:
  "real_of_int k \<le> y \<Longrightarrow> y < real_of_int k + 1 \<Longrightarrow> 0 \<le> k \<Longrightarrow> int_of_float y = k"
proof -
  assume a: "real_of_int k \<le> y" "y < real_of_int k + 1" "0 \<le> k"
  then have "\<not> y < 0" by simp
  moreover have "\<lfloor>y\<rfloor> = k" using a by (simp add: floor_eq_iff)
  ultimately show ?thesis by (simp add: int_of_float_def)
qed

lemma fifth_nonneg:
  fixes d :: int
  assumes "0 \<le> d" and "d \<le> 2 ^ 50"
  shows "int_of_float (fl (real_of_int d * fl (1 / 5))) = d div 5"
    and "int_of_float (real_of_int d / 5) = d div 5"
    and "\<bar>real_of_int d * fl (1 / 5)\<bar> \<le> 2 ^ 54"
proof -
  let ?k = "d div 5" and ?c = "fl (1 / 5)"
  have c: "?c = 1 / 5 + 1 / (5 * 2 ^ 54)" by (simp add: fl_fifth)
  have dk: "d = 5 * ?k + d mod 5" by simp
  have m: "0 \<le> d mod 5" "d mod 5 \<le> 4" by simp_all
  have k0: "0 \<le> ?k" using assms(1) by simp
  have kb: "?k \<le> 2 ^ 48" using assms(2) by simp
  have rd: "real_of_int d = 5 * real_of_int ?k + real_of_int (d mod 5)"
    by (subst dk) (simp only: of_int_add of_int_mult of_int_numeral)
  have rm: "0 \<le> real_of_int (d mod 5)" "real_of_int (d mod 5) \<le> 4" using m by simp_all
  have rb: "0 \<le> real_of_int d" "real_of_int d \<le> 2 ^ 50"
    using assms by simp_all
  have lo: "real_of_int ?k \<le> real_of_int d * ?c"
  proof -
    have "real_of_int ?k \<le> real_of_int d / 5" using rd rm by simp
    also have "\<dots> \<le> real_of_int d / 5 + real_of_int d / (5 * 2 ^ 54)" using rb by simp
    also have "\<dots> = real_of_int d * ?c" by (simp add: c algebra_simps)
    finally show ?thesis .
  qed
  have hi: "real_of_int d * ?c \<le> real_of_int ?k + 13 / 16"
  proof -
    have "real_of_int d * ?c = real_of_int d / 5 + real_of_int d / (5 * 2 ^ 54)"
      by (simp add: c algebra_simps)
    also have "real_of_int d / 5 = real_of_int ?k + real_of_int (d mod 5) / 5"
      by (subst rd) simp
    also have "\<dots> + real_of_int d / (5 * 2 ^ 54)
               \<le> real_of_int ?k + 4 / 5 + real_of_int d / (5 * 2 ^ 54)"
      using rm by simp
    also have "\<dots> \<le> real_of_int ?k + 4 / 5 + 2 ^ 50 / (5 * 2 ^ 54)"
      using rb by (simp add: divide_right_mono)
    also have "\<dots> = real_of_int ?k + 13 / 16" by simp
    finally show ?thesis .
  qed
  have rk: "representable (real_of_int ?k)" using k0 kb by (intro representable_int) simp
  have "real_of_int ?k + 13 / 16 = real_of_int (16 * ?k + 13) * pow2 (- 4)"
    by (simp add: pow2_def)
  moreover have "\<bar>16 * ?k + 13\<bar> < 2 ^ 53" using k0 kb by simp
  ultimately have rh: "representable (real_of_int ?k + 13 / 16)"
    by (intro representableI [of "16 * ?k + 13" "- 4"]) simp_all
  have "real_of_int ?k \<le> fl (real_of_int d * ?c)" using lo rk by (rule fl_ge)
  moreover have "fl (real_of_int d * ?c) \<le> real_of_int ?k + 13 / 16" using hi rh by (rule fl_le)
  then have "fl (real_of_int d * ?c) < real_of_int ?k + 1" by simp
  ultimately show "int_of_float (fl (real_of_int d * ?c)) = ?k" using k0
    by (rule int_of_float_between)
  have "real_of_int ?k \<le> real_of_int d / 5" using rd rm by simp
  moreover have "real_of_int d / 5 < real_of_int ?k + 1" using rd rm by simp
  ultimately show "int_of_float (real_of_int d / 5) = ?k" using k0
    by (rule int_of_float_between)
  have "0 \<le> real_of_int d * ?c" using lo k0 by simp
  moreover have "real_of_int ?k + 13 / 16 \<le> 2 ^ 54" using kb by simp
  ultimately show "\<bar>real_of_int d * ?c\<bar> \<le> 2 ^ 54" using hi by simp
qed

lemma fifth_any:
  fixes d :: int
  assumes "\<bar>d\<bar> \<le> 2 ^ 50"
  shows "int_of_float (fl (real_of_int d * fl (1 / 5))) = int_of_float (real_of_int d / 5)"
    and "\<bar>real_of_int d * fl (1 / 5)\<bar> \<le> 2 ^ 54"
proof -
  let ?e = "\<bar>d\<bar>"
  have e: "0 \<le> ?e" "?e \<le> 2 ^ 50" using assms by simp_all
  note E = fifth_nonneg [OF e]
  show "int_of_float (fl (real_of_int d * fl (1 / 5))) = int_of_float (real_of_int d / 5)"
  proof (cases "0 \<le> d")
    case True
    then have "?e = d" by simp
    with E(1,2) show ?thesis by simp
  next
    case False
    then have d: "real_of_int d = - real_of_int ?e" by simp
    have "int_of_float (fl (real_of_int d * fl (1 / 5)))
          = - int_of_float (fl (real_of_int ?e * fl (1 / 5)))"
      by (simp only: d mult_minus_left fl_minus int_of_float_minus)
    moreover have "int_of_float (real_of_int d / 5) = - int_of_float (real_of_int ?e / 5)"
      by (simp only: d minus_divide_left [symmetric] int_of_float_minus)
    ultimately show ?thesis using E(1,2) by simp
  qed
  have "\<bar>real_of_int d * fl (1 / 5)\<bar> = \<bar>real_of_int ?e * fl (1 / 5)\<bar>"
    by (simp add: abs_mult)
  with E(3) show "\<bar>real_of_int d * fl (1 / 5)\<bar> \<le> 2 ^ 54" by simp
qed

lemma spike_low_result:
  assumes "\<bar>MAX_LOAD s - BASE_LOAD s\<bar> \<le> 2 ^ 50"
  shows "spike_low s =
           Inr (BASE_LOAD s + int_of_float (real_of_int (MAX_LOAD s - BASE_LOAD s) / 5),
                s\<lparr>current_load_level := 20\<rparr>)"
proof -
  let ?d = "MAX_LOAD s - BASE_LOAD s"
  have "\<bar>?d\<bar> \<le> 2 ^ 53" using assms by simp
  then have f: "float_of_int ?d = Inr (real_of_int ?d)" by (rule float_of_int_exact)
  have r: "rounded (real_of_int ?d * fl (1 / 5)) = Some (fl (real_of_int ?d * fl (1 / 5)))"
    using fifth_any(2) [OF assms] by (rule rounded_small)
  show ?thesis
    unfolding spike_low_def Let_def f
    using r fifth_any(1) [OF assms] by (simp add: int_of_double_def)
qed

lemma spike_result:
  assumes "CYCLE_DURATION s \<noteq> 0" and "\<bar>CYCLE_DURATION s\<bar> \<le> 2 ^ 50"
    and "\<bar>MAX_LOAD s - BASE_LOAD s\<bar> \<le> 2 ^ 50"
  shows "0 \<le> spec_phase elapsed (CYCLE_DURATION s) \<and> spec_phase elapsed (CYCLE_DURATION s) < 1 \<and>
     calculate_target_workers msin s (JStr ''spike'') elapsed rnd =
       (if spec_spike_high (spec_phase elapsed (CYCLE_DURATION s))
        then Inr (MAX_LOAD s, s\<lparr>current_load_level := 100\<rparr>)
        else Inr (BASE_LOAD s + int_of_float (real_of_int (MAX_LOAD s - BASE_LOAD s) / 5),
                  s\<lparr>current_load_level := 20\<rparr>))"
proof -
  let ?c = "CYCLE_DURATION s"
  from phase_fraction [OF assms(1), of elapsed] obtain a b where
    ab: "0 \<le> a" "a < b" "b = \<bar>?c\<bar>" and
    q: "real_of_int (elapsed mod ?c) / real_of_int ?c = real_of_int a / real_of_int b"
    by blast
  have b: "0 < b" "b \<le> 2 ^ 50" using ab assms(2) by simp_all
  have range: "0 \<le> real_of_int a / real_of_int b" "real_of_int a / real_of_int b < 1"
    using ab b by simp_all
  have pos: "position s elapsed = fl (real_of_int a / real_of_int b)"
    by (simp only: position_def q)
  have sp: "spec_phase elapsed ?c = real_of_int a / real_of_int b"
    by (simp only: spec_phase_def q)
  note cmp = below_tenth [OF ab(1) b] at_least_half [OF ab(1) b] below_three_fifths [OF ab(1) b]
  show ?thesis
    unfolding sp
    using range assms(1) cmp spike_low_result [OF assms(3)]
    by (simp add: calculate_target_workers_def pos spec_spike_high_def)
qed

subsection \<open>The wave branch\<close>

lemma fl_one: "fl 1 = 1"
  using fl_int [of 1] by simp

lemma fl_numeral: "numeral n \<le> (2::int) ^ 53 \<Longrightarrow> fl (numeral n) = numeral n"
  using fl_int [of "numeral n"] by simp

lemma fl_quarter: "fl (1 / 4) = 1 / 4"
  by (rule fl_representable, rule representableI [of 1 "- 2"]) (simp_all add: pow2_def)

lemma fl_three_halves: "fl (3 / 2) = 3 / 2"
  by (rule fl_representable, rule representableI [of 3 "- 1"]) (simp_all add: pow2_def)

lemma fl_half_pi: "fl (pi_double / 2) = pi_double / 2"
  by (rule fl_representable, rule representableI [of 884279719003555 "- 49"])
     (simp_all add: pow2_def pi_double_def)

lemma pi_double_pos: "0 < pi_double"
  by (simp add: pi_double_def)

lemma representable_one: "representable 1"
  by (rule representableI [of 1 0]) (simp_all add: pow2_def)

lemma representable_zero: "representable 0"
  by (rule representableI [of 0 0]) (simp_all add: pow2_def)

lemma representable_two: "representable 2"
  by (rule representableI [of 2 0]) (simp_all add: pow2_def)

lemma wave_factor_range:
  assumes "\<bar>msin (wave_angle pos)\<bar> \<le> 1"
  shows "0 \<le> wave_factor msin pos" and "wave_factor msin pos \<le> 1"
proof -
  let ?v = "msin (wave_angle pos)"
  have "0 \<le> ?v + 1" "?v + 1 \<le> 2" using assms by simp_all
  then have "0 \<le> fl (?v + 1)" "fl (?v + 1) \<le> 2"
    using representable_zero representable_two by (simp_all add: fl_ge fl_le)
  then have "0 \<le> fl (?v + 1) / 2" "fl (?v + 1) / 2 \<le> 1" by simp_all
  then show "0 \<le> wave_factor msin pos" and "wave_factor msin pos \<le> 1"
    using representable_zero representable_one by (simp_all add: wave_factor_def fl_ge fl_le)
qed

lemma representable_pow53: "representable (2 ^ 53)"
  by (rule representableI [of 1 53]) (simp_all add: pow2_def)

lemma scaled_load_result:
  assumes "0 \<le> f" and "f \<le> 1" and "\<bar>BASE_LOAD s\<bar> \<le> 2 ^ 52" and "\<bar>MAX_LOAD s\<bar> \<le> 2 ^ 52"
  shows "scaled_load s f =
           Inr (int_of_float (fl (real_of_int (BASE_LOAD s)
                                  + fl (real_of_int (MAX_LOAD s - BASE_LOAD s) * f))))"
proof -
  let ?b = "BASE_LOAD s" and ?d = "MAX_LOAD s - BASE_LOAD s"
  have db: "\<bar>?d\<bar> \<le> 2 ^ 53" using assms(3,4) by simp
  then have fd: "float_of_int ?d = Inr (real_of_int ?d)" by (rule float_of_int_exact)
  have "\<bar>?b\<bar> \<le> 2 ^ 53" using assms(3) by simp
  then have fb: "float_of_int ?b = Inr (real_of_int ?b)" by (rule float_of_int_exact)
  have rdb: "\<bar>real_of_int ?d\<bar> \<le> 2 ^ 53"
  proof -
    have "real_of_int \<bar>?d\<bar> \<le> real_of_int (2 ^ 53)" using db by (simp only: of_int_le_iff)
    then show ?thesis by simp
  qed
  have rbb: "\<bar>real_of_int ?b\<bar> \<le> 2 ^ 52"
  proof -
    have "real_of_int \<bar>?b\<bar> \<le> real_of_int (2 ^ 52)" using assms(3) by (simp only: of_int_le_iff)
    then show ?thesis by simp
  qed
  have "\<bar>real_of_int ?d * f\<bar> = \<bar>real_of_int ?d\<bar> * f" using assms(1) by (simp add: abs_mult)
  also have "\<dots> \<le> \<bar>real_of_int ?d\<bar> * 1" using assms(2) by (intro mult_left_mono) simp_all
  finally have pf: "\<bar>real_of_int ?d * f\<bar> \<le> 2 ^ 53" using rdb by simp
  then have "\<bar>real_of_int ?d * f\<bar> \<le> 2 ^ 54" by simp
  then have prod: "rounded (real_of_int ?d * f) = Some (fl (real_of_int ?d * f))"
    by (rule rounded_small)
  have "\<bar>fl (real_of_int ?d * f)\<bar> \<le> 2 ^ 53" using pf representable_pow53 by (rule fl_abs_le)
  then have "\<bar>real_of_int ?b + fl (real_of_int ?d * f)\<bar> \<le> 2 ^ 54" using rbb by simp
  then have sum: "rounded (real_of_int ?b + fl (real_of_int ?d * f))
                  = Some (fl (real_of_int ?b + fl (real_of_int ?d * f)))"
    by (rule rounded_small)
  show ?thesis
    by (simp only: scaled_load_def fd fb prod sum int_of_double_def sum.case option.case)
qed

lemma apply_load_factor_result:
  assumes "0 \<le> f" and "f \<le> 1" and "\<bar>BASE_LOAD s\<bar> \<le> 2 ^ 52" and "\<bar>MAX_LOAD s\<bar> \<le> 2 ^ 52"
  shows "apply_load_factor s f =
           Inr (int_of_float (fl (real_of_int (BASE_LOAD s)
                                  + fl (real_of_int (MAX_LOAD s - BASE_LOAD s) * f))),
                s\<lparr>current_load_level := int_of_float (fl (f * 100))\<rparr>)"
proof -
  let ?s1 = "s\<lparr>current_load_level := int_of_float (fl (f * 100))\<rparr>"
  have "\<bar>f * 100\<bar> \<le> 2 ^ 54" using assms(1,2) by simp
  then have lvl: "rounded (f * 100) = Some (fl (f * 100))" by (rule rounded_small)
  have "\<bar>BASE_LOAD ?s1\<bar> \<le> 2 ^ 52" "\<bar>MAX_LOAD ?s1\<bar> \<le> 2 ^ 52" using assms(3,4) by simp_all
  from scaled_load_result [OF assms(1,2) this]
  have sl: "scaled_load ?s1 f =
           Inr (int_of_float (fl (real_of_int (BASE_LOAD s)
                                  + fl (real_of_int (MAX_LOAD s - BASE_LOAD s) * f))))"
    by simp
  show ?thesis
    by (simp only: apply_load_factor_def lvl int_of_double_def option.case sum.case Let_def sl)
qed

lemma wave_result:
  assumes "CYCLE_DURATION s \<noteq> 0" and "\<bar>BASE_LOAD s\<bar> \<le> 2 ^ 52" and "\<bar>MAX_LOAD s\<bar> \<le> 2 ^ 52"
    and "\<bar>msin (wave_angle (position s elapsed))\<bar> \<le> 1"
  shows "calculate_target_workers msin s (JStr ''wave'') elapsed rnd =
           Inr (int_of_float
                  (fl (real_of_int (BASE_LOAD s)
                       + fl (real_of_int (MAX_LOAD s - BASE_LOAD s)
                             * wave_factor msin (position s elapsed)))),
                s\<lparr>current_load_level :=
                    int_of_float (fl (wave_factor msin (position s elapsed) * 100))\<rparr>)"
  using assms(1)
    apply_load_factor_result [OF wave_factor_range [of msin "position s elapsed", OF assms(4)]
      assms(2,3)]
  by (simp add: calculate_target_workers_def)

lemma level_range:
  assumes "0 \<le> f" and "f \<le> 1"
  shows "0 \<le> int_of_float (fl (f * 100))" and "int_of_float (fl (f * 100)) \<le> 100"
proof -
  have r: "representable (real_of_int 0)" "representable (real_of_int 100)"
    by (rule representable_int, simp)+
  have "real_of_int 0 \<le> f * 100" "f * 100 \<le> real_of_int 100" using assms by simp_all
  then have "real_of_int 0 \<le> fl (f * 100)" "fl (f * 100) \<le> real_of_int 100"
    using r by (simp_all only: fl_ge fl_le)
  then have "int_of_float (real_of_int 0) \<le> int_of_float (fl (f * 100))"
    and "int_of_float (fl (f * 100)) \<le> int_of_float (real_of_int 100)"
    by (simp_all only: int_of_float_mono)
  then show "0 \<le> int_of_float (fl (f * 100))" and "int_of_float (fl (f * 100)) \<le> 100"
    by (simp_all only: int_of_float_of_int)
qed

lemma example_sin_bound: "\<bar>example_sin x\<bar> \<le> 1"
  unfolding example_sin_def by (rule fl_abs_le [OF _ representable_one]) simp

lemma example_sin_zero: "example_sin 0 = 0"
  by (simp add: example_sin_def fl_zero)

lemma example_sin_half_pi: "example_sin (pi_double / 2) = 1"
proof -
  have e: "pi_double / 2 * pi / pi_double = pi / 2" using pi_double_pos by simp
  show ?thesis unfolding example_sin_def e by (simp only: sin_pi_half fl_one)
qed

lemma wave_angle_zero: "wave_angle 0 = 0"
  by (simp add: wave_angle_def fl_zero)

lemma wave_angle_quarter: "wave_angle (1 / 4) = pi_double / 2"
  by (simp add: wave_angle_def fl_half fl_half_pi)

lemma wave_scenario:
  assumes "BASE_LOAD s = 10" "MAX_LOAD s = 50" "CYCLE_DURATION s = 120"
    and "msin (pi_double / 2) = 1"
  shows "position s 30 = 1 / 4" and "wave_factor msin (1 / 4) = 1"
    and "calculate_target_workers msin s (JStr ''wave'') 30 rnd
           = Inr (50, s\<lparr>current_load_level := 100\<rparr>)"
proof -
  show p: "position s 30 = 1 / 4" using assms(3) by (simp add: position_def fl_quarter)
  show f: "wave_factor msin (1 / 4) = 1"
    using assms(4) by (simp add: wave_factor_def wave_angle_quarter fl_numeral fl_one)
  have b: "\<bar>msin (wave_angle (position s 30))\<bar> \<le> 1"
    using assms(4) by (simp add: p wave_angle_quarter)
  have "CYCLE_DURATION s \<noteq> 0" "\<bar>BASE_LOAD s\<bar> \<le> 2 ^ 52" "\<bar>MAX_LOAD s\<bar> \<le> 2 ^ 52"
    using assms by simp_all
  from wave_result [of s msin 30 rnd, OF this b]
  show "calculate_target_workers msin s (JStr ''wave'') 30 rnd
           = Inr (50, s\<lparr>current_load_level := 100\<rparr>)"
    using assms(1,2) by (simp add: p f fl_numeral int_of_float_def)
qed

lemma wave_small_example:
  "calculate_target_workers example_sin (initial_state\<lparr>BASE_LOAD := 0, MAX_LOAD := 3\<rparr>)
     (JStr ''wave'') 0 0
     = Inr (1, initial_state\<lparr>BASE_LOAD := 0, MAX_LOAD := 3, current_load_level := 50\<rparr>)"
proof -
  let ?s = "initial_state\<lparr>BASE_LOAD := 0, MAX_LOAD := 3\<rparr>"
  have p: "position ?s 0 = 0" by (simp add: position_def fl_zero)
  have f: "wave_factor example_sin 0 = 1 / 2"
    by (simp add: wave_factor_def wave_angle_zero example_sin_zero fl_one fl_half)
  have "CYCLE_DURATION ?s \<noteq> 0" "\<bar>BASE_LOAD ?s\<bar> \<le> 2 ^ 52" "\<bar>MAX_LOAD ?s\<bar> \<le> 2 ^ 52"
    by (simp_all add: initial_state_def)
  from wave_result [of ?s example_sin 0 0, OF this example_sin_bound]
  have r: "calculate_target_workers example_sin ?s (JStr ''wave'') 0 0 =
           Inr (int_of_float
                  (fl (real_of_int (BASE_LOAD ?s)
                       + fl (real_of_int (MAX_LOAD ?s - BASE_LOAD ?s) * (1 / 2)))),
                ?s\<lparr>current_load_level := int_of_float (fl (1 / 2 * 100))\<rparr>)"
    by (simp only: p f)
  show ?thesis
    unfolding r by (simp add: fl_numeral fl_three_halves fl_zero int_of_float_def)
qed

lemma wave_angle_mono: "p \<le> q \<Longrightarrow> wave_angle p \<le> wave_angle q"
proof -
  assume "p \<le> q"
  then have "p * 2 \<le> q * 2" by simp
  then have "fl (p * 2) \<le> fl (q * 2)" by (rule fl_mono)
  then have "fl (p * 2) * pi_double \<le> fl (q * 2) * pi_double"
    using pi_double_pos by (simp only: mult_le_cancel_right_pos)
  then show ?thesis unfolding wave_angle_def by (rule fl_mono)
qed

lemma wave_angle_three_quarters: "wave_angle (3 / 4) = 3 * pi_double / 2"
proof -
  have "fl (3 / 2 * pi_double) = 3 / 2 * pi_double"
    by (rule fl_representable, rule representableI [of 2652839157010665 "- 49"])
       (simp_all add: pow2_def pi_double_def)
  then show ?thesis by (simp add: wave_angle_def fl_three_halves)
qed

lemma wave_angle_one: "wave_angle 1 = 2 * pi_double"
proof -
  have "fl (2 * pi_double) = 2 * pi_double"
    by (rule fl_representable, rule representableI [of 884279719003555 "- 47"])
       (simp_all add: pow2_def pi_double_def)
  then show ?thesis by (simp add: wave_angle_def fl_numeral)
qed

lemma fl_three_quarters: "fl (3 / 4) = 3 / 4"
  by (rule fl_representable, rule representableI [of 3 "- 2"]) (simp_all add: pow2_def)

lemma half_shift_mono: "v \<le> w \<Longrightarrow> fl (fl (v + 1) / 2) \<le> fl (fl (w + 1) / 2)"
proof -
  assume "v \<le> w"
  then have "v + 1 \<le> w + 1" by simp
  then have "fl (v + 1) \<le> fl (w + 1)" by (rule fl_mono)
  then have "fl (v + 1) / 2 \<le> fl (w + 1) / 2" by simp
  then show ?thesis by (rule fl_mono)
qed

lemma target_mono:
  fixes b d :: real
  assumes "0 \<le> d" and "f \<le> g"
  shows "int_of_float (fl (b + fl (d * f))) \<le> int_of_float (fl (b + fl (d * g)))"
proof -
  have "d * f \<le> d * g" by (rule mult_left_mono [OF assms(2) assms(1)])
  then have "fl (d * f) \<le> fl (d * g)" by (rule fl_mono)
  then have "b + fl (d * f) \<le> b + fl (d * g)" by simp
  then have "fl (b + fl (d * f)) \<le> fl (b + fl (d * g))" by (rule fl_mono)
  then show ?thesis by (rule int_of_float_mono)
qed

lemma target_range:
  fixes b m :: int
  assumes "b \<le> m" and "\<bar>b\<bar> \<le> 2 ^ 52" and "\<bar>m\<bar> \<le> 2 ^ 52" and "0 \<le> f" and "f \<le> 1"
  shows "b \<le> int_of_float (fl (real_of_int b + fl (real_of_int (m - b) * f)))"
    and "int_of_float (fl (real_of_int b + fl (real_of_int (m - b) * f))) \<le> m"
proof -
  let ?d = "real_of_int (m - b)"
  let ?p = "fl (?d * f)"
  have d0: "0 \<le> ?d" using assms(1) by simp
  have rd: "representable ?d" using assms(1,2,3) by (intro representable_int) simp
  have rb: "representable (real_of_int b)" using assms(2) by (intro representable_int) simp
  have rm: "representable (real_of_int m)" using assms(3) by (intro representable_int) simp
  have "0 \<le> ?d * f" using d0 assms(4) by (rule mult_nonneg_nonneg)
  then have p0: "0 \<le> ?p" by (rule fl_nonneg)
  have "?d * f \<le> ?d * 1" using assms(5) d0 by (rule mult_left_mono)
  then have "?d * f \<le> ?d" by simp
  then have p1: "?p \<le> ?d" using rd by (rule fl_le)
  have "real_of_int b \<le> real_of_int b + ?p" using p0 by simp
  then have lo: "real_of_int b \<le> fl (real_of_int b + ?p)" using rb by (rule fl_ge)
  have "real_of_int b + ?p \<le> real_of_int m" using p1 by simp
  then have hi: "fl (real_of_int b + ?p) \<le> real_of_int m" using rm by (rule fl_le)
  from int_of_float_mono [OF lo]
  show "b \<le> int_of_float (fl (real_of_int b + ?p))" by (simp only: int_of_float_of_int)
  from int_of_float_mono [OF hi]
  show "int_of_float (fl (real_of_int b + ?p)) \<le> m" by (simp only: int_of_float_of_int)
qed

lemma spec_phase_range:
  "c \<noteq> 0 \<Longrightarrow> 0 \<le> spec_phase t c \<and> spec_phase t c < 1"
proof -
  assume "c \<noteq> 0"
  from phase_fraction [OF this, of t] obtain a b where
    "0 \<le> a" "a < b" "real_of_int (t mod c) / real_of_int c = real_of_int a / real_of_int b"
    by blast
  then show ?thesis by (simp add: spec_phase_def)
qed

lemma position_phase: "position s t = fl (spec_phase t (CYCLE_DURATION s))"
  by (simp add: position_def spec_phase_def)

lemma wave_monotone_result:
  assumes order: "BASE_LOAD s \<le> MAX_LOAD s"
    and size: "\<bar>BASE_LOAD s\<bar> \<le> 2 ^ 52" "\<bar>MAX_LOAD s\<bar> \<le> 2 ^ 52"
    and cycles: "CYCLE_DURATION s \<noteq> 0" "CYCLE_DURATION s' \<noteq> 0"
    and same: "BASE_LOAD s' = BASE_LOAD s" "MAX_LOAD s' = MAX_LOAD s"
    and bound: "\<forall>x. \<bar>msin x\<bar> \<le> 1"
    and rise1: "\<forall>x y. 0 \<le> x \<and> x \<le> y \<and> y \<le> pi_double / 2 \<longrightarrow> msin x \<le> msin y"
    and fall: "\<forall>x y. pi_double / 2 \<le> x \<and> x \<le> y \<and> y \<le> 3 * pi_double / 2 \<longrightarrow> msin y \<le> msin x"
    and rise2: "\<forall>x y. 3 * pi_double / 2 \<le> x \<and> x \<le> y \<and> y \<le> 2 * pi_double \<longrightarrow> msin x \<le> msin y"
  shows "\<exists>v u v' u'.
           calculate_target_workers msin s (JStr ''wave'') t rnd = Inr (v, u) \<and>
           calculate_target_workers msin s' (JStr ''wave'') t' rnd' = Inr (v', u') \<and>
           0 \<le> spec_phase t (CYCLE_DURATION s) \<and> spec_phase t (CYCLE_DURATION s) < 1 \<and>
           BASE_LOAD s \<le> v \<and> v \<le> MAX_LOAD s \<and>
           (spec_phase t (CYCLE_DURATION s) \<le> spec_phase t' (CYCLE_DURATION s') \<and>
            spec_phase t' (CYCLE_DURATION s') \<le> 1 / 4 \<longrightarrow> v \<le> v') \<and>
           (3 / 4 \<le> spec_phase t (CYCLE_DURATION s) \<and>
            spec_phase t (CYCLE_DURATION s) \<le> spec_phase t' (CYCLE_DURATION s') \<longrightarrow> v \<le> v') \<and>
           (1 / 4 \<le> spec_phase t (CYCLE_DURATION s) \<and>
            spec_phase t (CYCLE_DURATION s) \<le> spec_phase t' (CYCLE_DURATION s') \<and>
            spec_phase t' (CYCLE_DURATION s') \<le> 3 / 4 \<longrightarrow> v' \<le> v)"
proof -
  let ?p = "spec_phase t (CYCLE_DURATION s)" and ?q = "spec_phase t' (CYCLE_DURATION s')"
  let ?a = "wave_angle (fl ?p)" and ?b = "wave_angle (fl ?q)"
  let ?f = "wave_factor msin (fl ?p)" and ?g = "wave_factor msin (fl ?q)"
  let ?base = "real_of_int (BASE_LOAD s)" and ?d = "real_of_int (MAX_LOAD s - BASE_LOAD s)"
  let ?v = "int_of_float (fl (?base + fl (?d * ?f)))"
  let ?w = "int_of_float (fl (?base + fl (?d * ?g)))"
  have p: "0 \<le> ?p" "?p < 1" using spec_phase_range [OF cycles(1), of t] by simp_all
  have q: "0 \<le> ?q" "?q < 1" using spec_phase_range [OF cycles(2), of t'] by simp_all
  have bp: "\<bar>msin (wave_angle (position s t))\<bar> \<le> 1" using bound by simp
  have bq: "\<bar>msin (wave_angle (position s' t'))\<bar> \<le> 1" using bound by simp
  have size': "\<bar>BASE_LOAD s'\<bar> \<le> 2 ^ 52" "\<bar>MAX_LOAD s'\<bar> \<le> 2 ^ 52" using size same by simp_all
  have r1: "calculate_target_workers msin s (JStr ''wave'') t rnd =
              Inr (?v, s\<lparr>current_load_level := int_of_float (fl (?f * 100))\<rparr>)"
    using wave_result [of s msin t rnd, OF cycles(1) size bp] by (simp only: position_phase)
  have r2: "calculate_target_workers msin s' (JStr ''wave'') t' rnd' =
              Inr (?w, s'\<lparr>current_load_level := int_of_float (fl (?g * 100))\<rparr>)"
    using wave_result [of s' msin t' rnd', OF cycles(2) size' bq]
    by (simp only: position_phase same)
  have fr: "0 \<le> ?f" "?f \<le> 1"
    using wave_factor_range [of msin "fl ?p"] bound by simp_all
  have range: "BASE_LOAD s \<le> ?v" "?v \<le> MAX_LOAD s"
    using target_range [OF order size fr] by simp_all
  have d0: "0 \<le> ?d" using order by simp
  have a0: "0 \<le> ?a"
  proof -
    have "0 \<le> fl ?p" using p(1) by (rule fl_nonneg)
    then have "wave_angle 0 \<le> ?a" by (rule wave_angle_mono)
    then show ?thesis by (simp only: wave_angle_zero)
  qed
  have b2: "?b \<le> 2 * pi_double"
  proof -
    have "?q \<le> 1" using q(2) by simp
    then have "fl ?q \<le> fl 1" by (rule fl_mono)
    then have "?b \<le> wave_angle 1" by (simp only: fl_one wave_angle_mono)
    then show ?thesis by (simp only: wave_angle_one)
  qed
  have ab: "?a \<le> ?b" if "?p \<le> ?q"
    using that by (intro wave_angle_mono fl_mono)
  have factor: "?f \<le> ?g" if "msin ?a \<le> msin ?b"
    using that unfolding wave_factor_def by (rule half_shift_mono)
  have factor': "?g \<le> ?f" if "msin ?b \<le> msin ?a"
    using that unfolding wave_factor_def by (rule half_shift_mono)
  have up1: "?v \<le> ?w" if "?p \<le> ?q" "?q \<le> 1 / 4"
  proof -
    have "fl ?q \<le> fl (1 / 4)" using that(2) by (rule fl_mono)
    then have "?b \<le> wave_angle (1 / 4)" by (simp only: fl_quarter wave_angle_mono)
    then have "?b \<le> pi_double / 2" by (simp only: wave_angle_quarter)
    with a0 ab [OF that(1)] rise1 have "msin ?a \<le> msin ?b" by blast
    then have "?f \<le> ?g" by (rule factor)
    with d0 show ?thesis by (rule target_mono)
  qed
  have up2: "?v \<le> ?w" if "3 / 4 \<le> ?p" "?p \<le> ?q"
  proof -
    have "fl (3 / 4) \<le> fl ?p" using that(1) by (rule fl_mono)
    then have "wave_angle (3 / 4) \<le> ?a" by (simp only: fl_three_quarters wave_angle_mono)
    then have "3 * pi_double / 2 \<le> ?a" by (simp only: wave_angle_three_quarters)
    with b2 ab [OF that(2)] rise2 have "msin ?a \<le> msin ?b" by blast
    then have "?f \<le> ?g" by (rule factor)
    with d0 show ?thesis by (rule target_mono)
  qed
  have down: "?w \<le> ?v" if "1 / 4 \<le> ?p" "?p \<le> ?q" "?q \<le> 3 / 4"
  proof -
    have "fl (1 / 4) \<le> fl ?p" using that(1) by (rule fl_mono)
    then have "wave_angle (1 / 4) \<le> ?a" by (simp only: fl_quarter wave_angle_mono)
    then have lo: "pi_double / 2 \<le> ?a" by (simp only: wave_angle_quarter)
    have "fl ?q \<le> fl (3 / 4)" using that(3) by (rule fl_mono)
    then have "?b \<le> wave_angle (3 / 4)" by (simp only: fl_three_quarters wave_angle_mono)
    then have "?b \<le> 3 * pi_double / 2" by (simp only: wave_angle_three_quarters)
    with lo ab [OF that(2)] fall have "msin ?b \<le> msin ?a" by blast
    then have "?g \<le> ?f" by (rule factor')
    with d0 show ?thesis by (rule target_mono)
  qed
  show ?thesis
    unfolding r1 r2 using p range up1 up2 down by auto
qed

subsection \<open>The instance of the sine\<close>

lemma turns_mono: "a \<le> b \<Longrightarrow> a * (2 * pi) \<le> b * (2 * pi)"
  by (simp add: mult_right_mono)

lemma sin_rising_first_quarter:
  assumes "0 \<le> p" "p \<le> q" "q \<le> 1 / 4"
  shows "sin (p * 2 * pi) \<le> sin (q * 2 * pi)"
proof -
  have "sin (p * (2 * pi)) \<le> sin (q * (2 * pi))"
  proof (rule sin_monotone_2pi_le)
    have "(- 1 / 4) * (2 * pi) \<le> p * (2 * pi)" using assms by (intro turns_mono) simp
    then show "- (pi / 2) \<le> p * (2 * pi)" by simp
    show "p * (2 * pi) \<le> q * (2 * pi)" using assms by (intro turns_mono)
    have "q * (2 * pi) \<le> (1 / 4) * (2 * pi)" using assms by (intro turns_mono)
    then show "q * (2 * pi) \<le> pi / 2" by simp
  qed
  then show ?thesis by (simp add: mult.assoc)
qed

lemma sin_rising_last_quarter:
  assumes "3 / 4 \<le> p" "p \<le> q" "q \<le> 1"
  shows "sin (p * 2 * pi) \<le> sin (q * 2 * pi)"
proof -
  have "sin ((p - 1) * (2 * pi)) \<le> sin ((q - 1) * (2 * pi))"
  proof (rule sin_monotone_2pi_le)
    have "(- 1 / 4) * (2 * pi) \<le> (p - 1) * (2 * pi)" using assms by (intro turns_mono) simp
    then show "- (pi / 2) \<le> (p - 1) * (2 * pi)" by simp
    show "(p - 1) * (2 * pi) \<le> (q - 1) * (2 * pi)" using assms by (intro turns_mono) simp
    have "(q - 1) * (2 * pi) \<le> (1 / 4) * (2 * pi)" using assms by (intro turns_mono) simp
    then show "(q - 1) * (2 * pi) \<le> pi / 2" by simp
  qed
  moreover have "(p - 1) * (2 * pi) = p * 2 * pi - 2 * pi" "(q - 1) * (2 * pi) = q * 2 * pi - 2 * pi"
    by (simp_all add: algebra_simps)
  ultimately show ?thesis by (simp add: sin_diff)
qed

lemma sin_falling_middle:
  assumes "1 / 4 \<le> p" "p \<le> q" "q \<le> 3 / 4"
  shows "sin (q * 2 * pi) \<le> sin (p * 2 * pi)"
proof -
  have "sin ((1 / 2 - q) * (2 * pi)) \<le> sin ((1 / 2 - p) * (2 * pi))"
  proof (rule sin_monotone_2pi_le)
    have "(- 1 / 4) * (2 * pi) \<le> (1 / 2 - q) * (2 * pi)" using assms by (intro turns_mono) simp
    then show "- (pi / 2) \<le> (1 / 2 - q) * (2 * pi)" by simp
    show "(1 / 2 - q) * (2 * pi) \<le> (1 / 2 - p) * (2 * pi)" using assms by (intro turns_mono) simp
    have "(1 / 2 - p) * (2 * pi) \<le> (1 / 4) * (2 * pi)" using assms by (intro turns_mono) simp
    then show "(1 / 2 - p) * (2 * pi) \<le> pi / 2" by simp
  qed
  moreover have "(1 / 2 - p) * (2 * pi) = pi - p * 2 * pi" "(1 / 2 - q) * (2 * pi) = pi - q * 2 * pi"
    by (simp_all add: algebra_simps)
  ultimately show ?thesis by (simp add: sin_diff)
qed

lemma example_angle: "x * pi / pi_double = x / (2 * pi_double) * 2 * pi"
  using pi_double_pos by simp

lemma example_sin_rise1:
  "\<forall>x y. 0 \<le> x \<and> x \<le> y \<and> y \<le> pi_double / 2 \<longrightarrow> example_sin x \<le> example_sin y"
proof (intro allI impI)
  fix x y :: real
  assume a: "0 \<le> x \<and> x \<le> y \<and> y \<le> pi_double / 2"
  have "0 \<le> x / (2 * pi_double)" using a pi_double_pos by simp
  moreover have "x / (2 * pi_double) \<le> y / (2 * pi_double)"
    using a pi_double_pos by (simp add: divide_right_mono)
  moreover have "y / (2 * pi_double) \<le> 1 / 4" using a pi_double_pos by (simp add: field_simps)
  ultimately have "sin (x / (2 * pi_double) * 2 * pi) \<le> sin (y / (2 * pi_double) * 2 * pi)"
    by (rule sin_rising_first_quarter)
  then show "example_sin x \<le> example_sin y"
    unfolding example_sin_def example_angle by (rule fl_mono)
qed

lemma example_sin_fall:
  "\<forall>x y. pi_double / 2 \<le> x \<and> x \<le> y \<and> y \<le> 3 * pi_double / 2
         \<longrightarrow> example_sin y \<le> example_sin x"
proof (intro allI impI)
  fix x y :: real
  assume a: "pi_double / 2 \<le> x \<and> x \<le> y \<and> y \<le> 3 * pi_double / 2"
  have "1 / 4 \<le> x / (2 * pi_double)" using a pi_double_pos by (simp add: field_simps)
  moreover have "x / (2 * pi_double) \<le> y / (2 * pi_double)"
    using a pi_double_pos by (simp add: divide_right_mono)
  moreover have "y / (2 * pi_double) \<le> 3 / 4" using a pi_double_pos by (simp add: field_simps)
  ultimately have "sin (y / (2 * pi_double) * 2 * pi) \<le> sin (x / (2 * pi_double) * 2 * pi)"
    by (rule sin_falling_middle)
  then show "example_sin y \<le> example_sin x"
    unfolding example_sin_def example_angle by (rule fl_mono)
qed

lemma example_sin_rise2:
  "\<forall>x y. 3 * pi_double / 2 \<le> x \<and> x \<le> y \<and> y \<le> 2 * pi_double
         \<longrightarrow> example_sin x \<le> example_sin y"
proof (intro allI impI)
  fix x y :: real
  assume a: "3 * pi_double / 2 \<le> x \<and> x \<le> y \<and> y \<le> 2 * pi_double"
  have "3 / 4 \<le> x / (2 * pi_double)" using a pi_double_pos by (simp add: field_simps)
  moreover have "x / (2 * pi_double) \<le> y / (2 * pi_double)"
    using a pi_double_pos by (simp add: divide_right_mono)
  moreover have "y / (2 * pi_double) \<le> 1" using a pi_double_pos by (simp add: field_simps)
  ultimately have "sin (x / (2 * pi_double) * 2 * pi) \<le> sin (y / (2 * pi_double) * 2 * pi)"
    by (rule sin_rising_last_quarter)
  then show "example_sin x \<le> example_sin y"
    unfolding example_sin_def example_angle by (rule fl_mono)
qed

lemma wave_factor_quarter: "msin (pi_double / 2) = 1 \<Longrightarrow> wave_factor msin (1 / 4) = 1"
  by (simp add: wave_factor_def wave_angle_quarter fl_numeral fl_one)

lemma fl_odd_integer: "fl 9007199254740995 = 9007199254740996"
  by (subst fl_eval [of 53]) (simp_all add: pow2_def round_half_even_def)

lemma fl_even_integer: "fl 9007199254740996 = 9007199254740996"
  by (rule fl_representable, rule representableI [of 4503599627370498 1]) (simp_all add: pow2_def)

lemma wave_large_example:
  "calculate_target_workers example_sin
     (initial_state\<lparr>BASE_LOAD := 0, MAX_LOAD := 9007199254740995\<rparr>) (JStr ''wave'') 30 0
   = Inr (9007199254740996,
          initial_state\<lparr>BASE_LOAD := 0, MAX_LOAD := 9007199254740995,
                         current_load_level := 100\<rparr>)"
proof -
  let ?s = "initial_state\<lparr>BASE_LOAD := 0, MAX_LOAD := 9007199254740995\<rparr>"
  let ?s1 = "?s\<lparr>current_load_level := 100\<rparr>"
  have c: "CYCLE_DURATION ?s = 120" by (simp add: initial_state_def)
  have p: "position ?s 30 = 1 / 4" by (simp add: position_def c fl_quarter)
  have f: "wave_factor example_sin (1 / 4) = 1"
    using example_sin_half_pi by (rule wave_factor_quarter)
  have lvl: "int_of_double (rounded (1 * 100)) = Inr 100"
    by (simp add: rounded_small fl_numeral int_of_double_def int_of_float_def)
  have d: "float_of_int (MAX_LOAD ?s1 - BASE_LOAD ?s1) = Inr 9007199254740996"
    by (simp add: float_of_int_def rounded_small fl_odd_integer)
  have b: "float_of_int (BASE_LOAD ?s1) = Inr 0"
    by (simp add: float_of_int_def rounded_small fl_zero)
  have sl: "scaled_load ?s1 1 = Inr 9007199254740996"
    unfolding scaled_load_def d b
    by (simp add: rounded_small fl_even_integer int_of_double_def int_of_float_def)
  have "apply_load_factor ?s 1 = Inr (9007199254740996, ?s1)"
    unfolding apply_load_factor_def lvl by (simp only: sum.case Let_def sl)
  then show ?thesis
    by (simp add: calculate_target_workers_def c p f)
qed

subsection \<open>The wave pattern\<close>

text \<open>
  The specification's formula for the wave target rounds to the nearest integer; the code
  truncates. With \<open>BASE_LOAD = 0\<close>, \<open>MAX_LOAD = 3\<close> and \<open>CYCLE_DURATION = 120\<close>, at
  \<open>elapsed = 0\<close> the position is 0, the sine of 0 is 0, the factor is 1/2 and the
  scaled load is 1.5, all of them doubles: \<open>calculate_target_workers\<close> returns 1, the
  formula of the specification gives 2.
\<close>

theorem wave_round_counterexample:
  "calculate_target_workers example_sin (initial_state\<lparr>BASE_LOAD := 0, MAX_LOAD := 3\<rparr>)
     (JStr ''wave'') 0 0
     = Inr (1, initial_state\<lparr>BASE_LOAD := 0, MAX_LOAD := 3, current_load_level := 50\<rparr>)
   \<and> spec_wave_target 0 3 (spec_wave_factor (spec_phase 0 120)) = 2"
  using wave_small_example
  by (simp add: spec_wave_target_def spec_wave_factor_def spec_phase_def round_def)

text \<open>
  Claim C1, as amended. For every elapsed time, every \<open>CYCLE_DURATION > 0\<close>, every base and
  max of magnitude at most \<open>2^52\<close>, and a library sine with values in \<open>[-1, 1]\<close>,
  \<open>calculate_target_workers\<close> under the wave pattern computes in double precision, each
  operation rounded to the nearest double, \<open>phase = (elapsed mod cycle_duration) /
  cycle_duration\<close> and \<open>factor = (sin(phase * 2 * pi) + 1) / 2\<close>, a value in \<open>[0, 1]\<close>;
  it sets the load level to \<open>factor * 100\<close> truncated towards zero and returns
  \<open>base + (max - base) * factor\<close> truncated towards zero. With base 10, max 50, cycle
  120 and elapsed 30, and a sine that is 1 at the double \<open>math.pi / 2\<close>, the phase is
  1/4, the factor is 1, the target is 50 and the load level is 100.
\<close>

theorem wave_target:
  assumes "0 < CYCLE_DURATION s" and "\<bar>BASE_LOAD s\<bar> \<le> 2 ^ 52" and "\<bar>MAX_LOAD s\<bar> \<le> 2 ^ 52"
    and "\<forall>x. \<bar>msin x\<bar> \<le> 1"
  shows "calculate_target_workers msin s (JStr ''wave'') elapsed rnd =
       (let phase = fl (real_of_int (elapsed mod CYCLE_DURATION s)
                        / real_of_int (CYCLE_DURATION s));
            factor = fl (fl (msin (fl (fl (phase * 2) * pi_double)) + 1) / 2)
        in Inr (int_of_float
                  (fl (real_of_int (BASE_LOAD s)
                       + fl (real_of_int (MAX_LOAD s - BASE_LOAD s) * factor))),
                s\<lparr>current_load_level := int_of_float (fl (factor * 100))\<rparr>))
     \<and> 0 \<le> wave_factor msin (position s elapsed) \<and> wave_factor msin (position s elapsed) \<le> 1
     \<and> (BASE_LOAD s = 10 \<and> MAX_LOAD s = 50 \<and> CYCLE_DURATION s = 120 \<and> elapsed = 30 \<and>
         msin (pi_double / 2) = 1 \<longrightarrow>
          position s elapsed = 1 / 4 \<and> wave_factor msin (1 / 4) = 1 \<and>
          calculate_target_workers msin s (JStr ''wave'') elapsed rnd
            = Inr (50, s\<lparr>current_load_level := 100\<rparr>))"
proof -
  have nz: "CYCLE_DURATION s \<noteq> 0" using assms(1) by simp
  have b: "\<bar>msin (wave_angle (position s elapsed))\<bar> \<le> 1" using assms(4) by simp
  have general: "calculate_target_workers msin s (JStr ''wave'') elapsed rnd =
       (let phase = fl (real_of_int (elapsed mod CYCLE_DURATION s)
                        / real_of_int (CYCLE_DURATION s));
            factor = fl (fl (msin (fl (fl (phase * 2) * pi_double)) + 1) / 2)
        in Inr (int_of_float
                  (fl (real_of_int (BASE_LOAD s)
                       + fl (real_of_int (MAX_LOAD s - BASE_LOAD s) * factor))),
                s\<lparr>current_load_level := int_of_float (fl (factor * 100))\<rparr>))"
    using wave_result [of s msin elapsed rnd, OF nz assms(2,3) b]
    by (simp only: Let_def wave_factor_def wave_angle_def position_def)
  note range = wave_factor_range [of msin "position s elapsed", OF b]
  have scenario: "BASE_LOAD s = 10 \<and> MAX_LOAD s = 50 \<and> CYCLE_DURATION s = 120 \<and> elapsed = 30 \<and>
         msin (pi_double / 2) = 1 \<longrightarrow>
          position s elapsed = 1 / 4 \<and> wave_factor msin (1 / 4) = 1 \<and>
          calculate_target_workers msin s (JStr ''wave'') elapsed rnd
            = Inr (50, s\<lparr>current_load_level := 100\<rparr>)"
  proof (intro impI)
    assume a: "BASE_LOAD s = 10 \<and> MAX_LOAD s = 50 \<and> CYCLE_DURATION s = 120 \<and> elapsed = 30 \<and>
         msin (pi_double / 2) = 1"
    then have h: "BASE_LOAD s = 10" "MAX_LOAD s = 50" "CYCLE_DURATION s = 120"
      "msin (pi_double / 2) = 1" and e: "elapsed = 30"
      by simp_all
    show "position s elapsed = 1 / 4 \<and> wave_factor msin (1 / 4) = 1 \<and>
          calculate_target_workers msin s (JStr ''wave'') elapsed rnd
            = Inr (50, s\<lparr>current_load_level := 100\<rparr>)"
      unfolding e using wave_scenario [where msin = msin, OF h] by (intro conjI)
  qed
  from general range scenario show ?thesis by (intro conjI)
qed

theorem wave_target_witness:
  "0 < CYCLE_DURATION initial_state \<and> \<bar>BASE_LOAD initial_state\<bar> \<le> 2 ^ 52 \<and>
   \<bar>MAX_LOAD initial_state\<bar> \<le> 2 ^ 52 \<and> (\<forall>x. \<bar>example_sin x\<bar> \<le> 1) \<and>
   BASE_LOAD initial_state = 10 \<and> MAX_LOAD initial_state = 50 \<and>
   CYCLE_DURATION initial_state = 120 \<and> example_sin (pi_double / 2) = 1 \<and>
   calculate_target_workers example_sin initial_state (JStr ''wave'') 30 0
     = Inr (50, initial_state\<lparr>current_load_level := 100\<rparr>)"
proof -
  have h: "0 < CYCLE_DURATION initial_state" "\<bar>BASE_LOAD initial_state\<bar> \<le> 2 ^ 52"
    "\<bar>MAX_LOAD initial_state\<bar> \<le> 2 ^ 52"
    by (simp_all add: initial_state_def)
  have e: "\<forall>x. \<bar>example_sin x\<bar> \<le> 1" using example_sin_bound by blast
  have v: "BASE_LOAD initial_state = 10" "MAX_LOAD initial_state = 50"
    "CYCLE_DURATION initial_state = 120"
    by (simp_all add: initial_state_def)
  from wave_target [OF h e, of 30 0] v example_sin_half_pi
  have "calculate_target_workers example_sin initial_state (JStr ''wave'') 30 0
          = Inr (50, initial_state\<lparr>current_load_level := 100\<rparr>)"
    by blast
  with h e v example_sin_half_pi show ?thesis by blast
qed

text \<open>
  The conversion of a large integer to a float rounds it. With \<open>BASE_LOAD = 0\<close> and
  \<open>MAX_LOAD = 2^53 + 3\<close>, at phase 1/4 the factor is 1 and the difference
  \<open>2^53 + 3\<close> becomes the double \<open>2^53 + 4\<close>: the target returned is \<open>MAX_LOAD + 1\<close>,
  outside \<open>[base, max]\<close>.
\<close>

theorem wave_range_counterexample:
  "BASE_LOAD (initial_state\<lparr>BASE_LOAD := 0, MAX_LOAD := 9007199254740995\<rparr>)
     \<le> MAX_LOAD (initial_state\<lparr>BASE_LOAD := 0, MAX_LOAD := 9007199254740995\<rparr>)
   \<and> spec_phase 30 120 = 1 / 4
   \<and> calculate_target_workers example_sin
        (initial_state\<lparr>BASE_LOAD := 0, MAX_LOAD := 9007199254740995\<rparr>) (JStr ''wave'') 30 0
      = Inr (9007199254740996,
             initial_state\<lparr>BASE_LOAD := 0, MAX_LOAD := 9007199254740995,
                            current_load_level := 100\<rparr>)
   \<and> \<not> 9007199254740996
         \<le> MAX_LOAD (initial_state\<lparr>BASE_LOAD := 0, MAX_LOAD := 9007199254740995\<rparr>)"
  using wave_large_example by (simp add: spec_phase_def)

text \<open>
  Claim C6, as amended. For every phase in \<open>[0, 1)\<close> under the wave pattern with
  \<open>base \<le> max\<close>, both of magnitude at most \<open>2^52\<close>, and a library sine that has values
  in \<open>[-1, 1]\<close>, does not decrease on the doubles from 0 to \<open>math.pi / 2\<close>, does not
  increase from there to \<open>3 * math.pi / 2\<close> and does not decrease from there to
  \<open>2 * math.pi\<close>: the returned target lies within \<open>[base, max]\<close>; it does not decrease
  when the phase grows within \<open>[0, 1/4]\<close> or within \<open>[3/4, 1)\<close>, and does not increase
  when the phase grows within \<open>[1/4, 3/4]\<close>. The two calls may have different cycle
  durations, so that the phases range over all the values the code can compute.
\<close>

theorem wave_shape:
  assumes "BASE_LOAD s \<le> MAX_LOAD s"
    and "\<bar>BASE_LOAD s\<bar> \<le> 2 ^ 52" and "\<bar>MAX_LOAD s\<bar> \<le> 2 ^ 52"
    and "CYCLE_DURATION s \<noteq> 0" and "CYCLE_DURATION s' \<noteq> 0"
    and "BASE_LOAD s' = BASE_LOAD s" and "MAX_LOAD s' = MAX_LOAD s"
    and "\<forall>x. \<bar>msin x\<bar> \<le> 1"
    and "\<forall>x y. 0 \<le> x \<and> x \<le> y \<and> y \<le> pi_double / 2 \<longrightarrow> msin x \<le> msin y"
    and "\<forall>x y. pi_double / 2 \<le> x \<and> x \<le> y \<and> y \<le> 3 * pi_double / 2 \<longrightarrow> msin y \<le> msin x"
    and "\<forall>x y. 3 * pi_double / 2 \<le> x \<and> x \<le> y \<and> y \<le> 2 * pi_double \<longrightarrow> msin x \<le> msin y"
  shows "\<exists>v u v' u'.
           calculate_target_workers msin s (JStr ''wave'') t rnd = Inr (v, u) \<and>
           calculate_target_workers msin s' (JStr ''wave'') t' rnd' = Inr (v', u') \<and>
           0 \<le> spec_phase t (CYCLE_DURATION s) \<and> spec_phase t (CYCLE_DURATION s) < 1 \<and>
           BASE_LOAD s \<le> v \<and> v \<le> MAX_LOAD s \<and>
           (spec_phase t (CYCLE_DURATION s) \<le> spec_phase t' (CYCLE_DURATION s') \<and>
            spec_phase t' (CYCLE_DURATION s') \<le> 1 / 4 \<longrightarrow> v \<le> v') \<and>
           (3 / 4 \<le> spec_phase t (CYCLE_DURATION s) \<and>
            spec_phase t (CYCLE_DURATION s) \<le> spec_phase t' (CYCLE_DURATION s') \<longrightarrow> v \<le> v') \<and>
           (1 / 4 \<le> spec_phase t (CYCLE_DURATION s) \<and>
            spec_phase t (CYCLE_DURATION s) \<le> spec_phase t' (CYCLE_DURATION s') \<and>
            spec_phase t' (CYCLE_DURATION s') \<le> 3 / 4 \<longrightarrow> v' \<le> v)"
  using assms by (rule wave_monotone_result)

theorem wave_shape_witness:
  "BASE_LOAD initial_state \<le> MAX_LOAD initial_state \<and>
   \<bar>BASE_LOAD initial_state\<bar> \<le> 2 ^ 52 \<and> \<bar>MAX_LOAD initial_state\<bar> \<le> 2 ^ 52 \<and>
   CYCLE_DURATION initial_state \<noteq> 0 \<and> (\<forall>x. \<bar>example_sin x\<bar> \<le> 1) \<and>
   (\<forall>x y. 0 \<le> x \<and> x \<le> y \<and> y \<le> pi_double / 2 \<longrightarrow> example_sin x \<le> example_sin y) \<and>
   (\<forall>x y. pi_double / 2 \<le> x \<and> x \<le> y \<and> y \<le> 3 * pi_double / 2
          \<longrightarrow> example_sin y \<le> example_sin x) \<and>
   (\<forall>x y. 3 * pi_double / 2 \<le> x \<and> x \<le> y \<and> y \<le> 2 * pi_double
          \<longrightarrow> example_sin x \<le> example_sin y) \<and>
   spec_phase 0 (CYCLE_DURATION initial_state) \<le> spec_phase 30 (CYCLE_DURATION initial_state) \<and>
   spec_phase 30 (CYCLE_DURATION initial_state) \<le> 1 / 4 \<and>
   (\<exists>v u v' u'.
      calculate_target_workers example_sin initial_state (JStr ''wave'') 0 0 = Inr (v, u) \<and>
      calculate_target_workers example_sin initial_state (JStr ''wave'') 30 0 = Inr (v', u') \<and>
      BASE_LOAD initial_state \<le> v \<and> v \<le> v' \<and> v' \<le> MAX_LOAD initial_state)"
proof -
  have h: "BASE_LOAD initial_state \<le> MAX_LOAD initial_state"
    "\<bar>BASE_LOAD initial_state\<bar> \<le> 2 ^ 52" "\<bar>MAX_LOAD initial_state\<bar> \<le> 2 ^ 52"
    "CYCLE_DURATION initial_state \<noteq> 0"
    by (simp_all add: initial_state_def)
  have e: "\<forall>x. \<bar>example_sin x\<bar> \<le> 1" using example_sin_bound by blast
  have ph: "spec_phase 0 (CYCLE_DURATION initial_state) \<le> spec_phase 30 (CYCLE_DURATION initial_state)"
    "spec_phase 30 (CYCLE_DURATION initial_state) \<le> 1 / 4"
    by (simp_all add: spec_phase_def initial_state_def)
  from wave_shape [OF h(1,2,3,4) h(4) refl refl e example_sin_rise1 example_sin_fall
      example_sin_rise2, of 0 0 30 0]
  obtain v u v' u' where
    a: "calculate_target_workers example_sin initial_state (JStr ''wave'') 0 0 = Inr (v, u)" and
    b: "calculate_target_workers example_sin initial_state (JStr ''wave'') 30 0 = Inr (v', u')" and
    c: "BASE_LOAD initial_state \<le> v" and
    d: "spec_phase 0 (CYCLE_DURATION initial_state) \<le> spec_phase 30 (CYCLE_DURATION initial_state)
         \<and> spec_phase 30 (CYCLE_DURATION initial_state) \<le> 1 / 4 \<longrightarrow> v \<le> v'"
    by blast
  from wave_shape [OF h(1,2,3,4) h(4) refl refl e example_sin_rise1 example_sin_fall
      example_sin_rise2, of 30 0 0 0] b
  have top: "v' \<le> MAX_LOAD initial_state" by auto
  from d ph have "v \<le> v'" by blast
  with a b c top have
    "\<exists>v u v' u'.
      calculate_target_workers example_sin initial_state (JStr ''wave'') 0 0 = Inr (v, u) \<and>
      calculate_target_workers example_sin initial_state (JStr ''wave'') 30 0 = Inr (v', u') \<and>
      BASE_LOAD initial_state \<le> v \<and> v \<le> v' \<and> v' \<le> MAX_LOAD initial_state"
    by blast
  with h e example_sin_rise1 example_sin_fall example_sin_rise2 ph show ?thesis
    by (intro conjI)
qed

subsection \<open>The spike pattern\<close>

text \<open>
  The specification's formula for the low plateau rounds \<open>0.2 * (max - base)\<close> to the
  nearest integer; the code truncates the product. With \<open>BASE_LOAD = 0\<close>, \<open>MAX_LOAD = 3\<close>
  and \<open>CYCLE_DURATION = 120\<close>, at \<open>elapsed = 24\<close> the phase is 1/5, outside both
  spikes: \<open>calculate_target_workers\<close> returns 0, the formula of the specification
  gives 1.
\<close>

theorem spike_round_counterexample:
  "spec_phase 24 120 = 1 / 5
   \<and> \<not> spec_spike_high (1 / 5)
   \<and> calculate_target_workers example_sin (initial_state\<lparr>BASE_LOAD := 0, MAX_LOAD := 3\<rparr>)
        (JStr ''spike'') 24 0
       = Inr (0, initial_state\<lparr>BASE_LOAD := 0, MAX_LOAD := 3, current_load_level := 20\<rparr>)
   \<and> spec_spike_low_target 0 3 = 1"
proof -
  let ?s = "initial_state\<lparr>BASE_LOAD := 0, MAX_LOAD := 3\<rparr>"
  have h: "CYCLE_DURATION ?s \<noteq> 0" "\<bar>CYCLE_DURATION ?s\<bar> \<le> 2 ^ 50"
    "\<bar>MAX_LOAD ?s - BASE_LOAD ?s\<bar> \<le> 2 ^ 50"
    by (simp_all add: initial_state_def)
  have c: "CYCLE_DURATION ?s = 120" by (simp add: initial_state_def)
  have ph: "spec_phase 24 120 = 1 / 5" by (simp add: spec_phase_def)
  have low: "\<not> spec_spike_high (1 / 5)" by (simp add: spec_spike_high_def)
  from spike_result [OF h, of 24 example_sin 0]
  have "calculate_target_workers example_sin ?s (JStr ''spike'') 24 0
          = Inr (BASE_LOAD ?s + int_of_float (real_of_int (MAX_LOAD ?s - BASE_LOAD ?s) / 5),
                 ?s\<lparr>current_load_level := 20\<rparr>)"
    unfolding c ph using low by simp
  then have "calculate_target_workers example_sin ?s (JStr ''spike'') 24 0
          = Inr (0, ?s\<lparr>current_load_level := 20\<rparr>)"
    by (simp add: int_of_float_def)
  moreover have "spec_spike_low_target 0 3 = 1"
    by (simp add: spec_spike_low_target_def round_def)
  ultimately show ?thesis using ph low by (intro conjI)
qed

text \<open>
  Claim C2, as amended. For a cycle duration other than zero of magnitude at most
  \<open>2^50\<close> and \<open>max - base\<close> of magnitude at most \<open>2^50\<close>, the phase
  \<open>(elapsed mod cycle_duration) / cycle_duration\<close> lies in \<open>[0, 1)\<close>, and
  \<open>calculate_target_workers\<close> under the spike pattern returns \<open>max\<close> and sets the load
  level to 100 exactly when \<open>phase < 0.1\<close> or \<open>0.5 \<le> phase < 0.6\<close>; for every
  other phase it returns \<open>base\<close> plus \<open>0.2 * (max - base)\<close> truncated towards zero, which
  is \<open>(max - base) / 5\<close> truncated, and sets the load level to 20. Within these
  magnitudes the comparisons and the product in double precision agree with the exact
  ones.
\<close>

theorem spike_target:
  assumes "CYCLE_DURATION s \<noteq> 0" and "\<bar>CYCLE_DURATION s\<bar> \<le> 2 ^ 50"
    and "\<bar>MAX_LOAD s - BASE_LOAD s\<bar> \<le> 2 ^ 50"
  shows "0 \<le> spec_phase elapsed (CYCLE_DURATION s) \<and> spec_phase elapsed (CYCLE_DURATION s) < 1 \<and>
     calculate_target_workers msin s (JStr ''spike'') elapsed rnd =
       (if spec_spike_high (spec_phase elapsed (CYCLE_DURATION s))
        then Inr (MAX_LOAD s, s\<lparr>current_load_level := 100\<rparr>)
        else Inr (BASE_LOAD s + int_of_float (real_of_int (MAX_LOAD s - BASE_LOAD s) / 5),
                  s\<lparr>current_load_level := 20\<rparr>))"
  using assms by (rule spike_result)

theorem spike_target_witness:
  "CYCLE_DURATION initial_state \<noteq> 0 \<and> \<bar>CYCLE_DURATION initial_state\<bar> \<le> 2 ^ 50 \<and>
   \<bar>MAX_LOAD initial_state - BASE_LOAD initial_state\<bar> \<le> 2 ^ 50 \<and>
   calculate_target_workers example_sin initial_state (JStr ''spike'') 6 0
     = Inr (50, initial_state\<lparr>current_load_level := 100\<rparr>) \<and>
   calculate_target_workers example_sin initial_state (JStr ''spike'') 24 0
     = Inr (18, initial_state\<lparr>current_load_level := 20\<rparr>)"
proof -
  have h: "CYCLE_DURATION initial_state \<noteq> 0" "\<bar>CYCLE_DURATION initial_state\<bar> \<le> 2 ^ 50"
    "\<bar>MAX_LOAD initial_state - BASE_LOAD initial_state\<bar> \<le> 2 ^ 50"
    by (simp_all add: initial_state_def)
  have v: "CYCLE_DURATION initial_state = 120" "BASE_LOAD initial_state = 10"
    "MAX_LOAD initial_state = 50"
    by (simp_all add: initial_state_def)
  have "calculate_target_workers example_sin initial_state (JStr ''spike'') 6 0
     = Inr (50, initial_state\<lparr>current_load_level := 100\<rparr>)"
    using spike_target [OF h, of 6 example_sin 0]
    by (simp add: v spec_phase_def spec_spike_high_def)
  moreover have "calculate_target_workers example_sin initial_state (JStr ''spike'') 24 0
     = Inr (18, initial_state\<lparr>current_load_level := 20\<rparr>)"
    using spike_target [OF h, of 24 example_sin 0]
    by (simp add: v spec_phase_def spec_spike_high_def int_of_float_def)
  ultimately show ?thesis using h by (intro conjI)
qed

subsection \<open>The fallback for an unknown pattern\<close>

text \<open>
  The position in the cycle is computed before the pattern is looked at, for every pattern
  but manual: with \<open>CYCLE_DURATION = 0\<close> an unknown pattern raises ZeroDivisionError
  and no target is returned.
\<close>

theorem fallback_zero_cycle_counterexample:
  "calculate_target_workers example_sin (initial_state\<lparr>CYCLE_DURATION := 0\<rparr>)
     (JStr ''burst'') 0 0
     = Inl (ZeroDivisionError, initial_state\<lparr>CYCLE_DURATION := 0\<rparr>)"
  by (simp add: calculate_target_workers_def initial_state_def)

text \<open>
  Claim C9, as amended. For every pattern value outside manual, wave, spike and random,
  every elapsed time and every cycle duration other than zero,
  \<open>calculate_target_workers\<close> returns \<open>BASE_LOAD\<close> and leaves the state, and with it
  \<open>current_load_level\<close>, unchanged.
\<close>

theorem fallback_target:
  "mode \<notin> {JStr ''manual'', JStr ''wave'', JStr ''spike'', JStr ''random''} \<Longrightarrow>
   CYCLE_DURATION s \<noteq> 0 \<Longrightarrow>
     calculate_target_workers msin s mode elapsed rnd = Inr (BASE_LOAD s, s)"
  by (simp add: calculate_target_workers_def)

theorem fallback_target_witness:
  "JInt 3 \<notin> {JStr ''manual'', JStr ''wave'', JStr ''spike'', JStr ''random''} \<and>
   CYCLE_DURATION initial_state \<noteq> 0 \<and>
   calculate_target_workers example_sin initial_state (JInt 3) 42 0 = Inr (10, initial_state)"
  using fallback_target [of "JInt 3" initial_state example_sin 42 0] by (simp add: initial_state_def)

subsection \<open>The manual pattern\<close>

text \<open>
  Claim C5. For every elapsed time and every configuration (also a cycle duration of
  zero), \<open>calculate_target_workers\<close> under the manual pattern returns the stored
  \<open>manual_workers\<close> and leaves the state, and with it \<open>current_load_level\<close>, unchanged.
  After a POST /config with the body \<open>{"workers": 7}\<close> while the pattern is manual, the
  request succeeds and the next call returns 7, whatever the elapsed time is.
\<close>

theorem manual_target:
  "calculate_target_workers msin s (JStr ''manual'') elapsed rnd = Inr (manual_workers s, s)
   \<and> (PATTERN_MODE s = JStr ''manual'' \<longrightarrow>
        (\<exists>s' r. update_config (JDict [(''workers'', JInt 7)]) s = (s', Inr r)
           \<and> status_code r = 200
           \<and> calculate_target_workers msin s' (PATTERN_MODE s') elapsed rnd = Inr (7, s')))"
  by (simp add: calculate_target_workers_def update_config_def field_def int_field_def
      inc_requests_def)

theorem manual_target_witness:
  "PATTERN_MODE (initial_state\<lparr>PATTERN_MODE := JStr ''manual''\<rparr>) = JStr ''manual''
   \<and> calculate_target_workers example_sin (initial_state\<lparr>PATTERN_MODE := JStr ''manual''\<rparr>)
        (JStr ''manual'') 12345 0
       = Inr (10, initial_state\<lparr>PATTERN_MODE := JStr ''manual''\<rparr>)
   \<and> (\<exists>s' r. update_config (JDict [(''workers'', JInt 7)])
                (initial_state\<lparr>PATTERN_MODE := JStr ''manual''\<rparr>) = (s', Inr r)
           \<and> calculate_target_workers example_sin s' (PATTERN_MODE s') 12345 0 = Inr (7, s'))"
  using manual_target [of example_sin "initial_state\<lparr>PATTERN_MODE := JStr ''manual''\<rparr>" 12345 0]
  by (auto simp add: initial_state_def)

subsection \<open>The worker pool\<close>


lemma spawn_workers_frame:
  "spawn_workers ns s = s\<lparr>workers := workers (spawn_workers ns s)\<rparr>"
proof (induction ns arbitrary: s)
  case Nil
  show ?case by simp
next
  case (Cons i rest)
  let ?s1 = "s\<lparr>workers := workers s @ [\<lparr>worker_id = int (length (workers s)) + int i, is_alive = True\<rparr>]\<rparr>"
  have "spawn_workers rest ?s1 = ?s1\<lparr>workers := workers (spawn_workers rest ?s1)\<rparr>"
    by (rule Cons.IH)
  then show ?case by simp
qed






subsection \<open>The controller when it is disabled\<close>

lemma tick_when_disabled:
  "\<not> ENABLED s \<Longrightarrow>
     manage_workers_tick msin s inp =
       s\<lparr>memory_usage_bytes := tick_rss inp, cpu_usage_estimate := fl (tick_cpu_percent inp / 100)\<rparr>"
  by (simp add: manage_workers_tick_def)

lemma disabled_run:
  "\<not> ENABLED s \<Longrightarrow>
     \<not> ENABLED (manage_workers msin s inps) \<and> workers (manage_workers msin s inps) = workers s \<and>
     active_workers (manage_workers msin s inps) = active_workers s \<and>
     load_level (manage_workers msin s inps) = load_level s"
proof (induction inps arbitrary: s)
  case Nil
  then show ?case by simp
next
  case (Cons inp inps)
  let ?s1 = "s\<lparr>memory_usage_bytes := tick_rss inp, cpu_usage_estimate := fl (tick_cpu_percent inp / 100)\<rparr>"
  have "\<not> ENABLED ?s1" using Cons.prems by simp
  from Cons.IH [OF this] Cons.prems show ?case by (simp add: tick_when_disabled)
qed

text \<open>
  Claim C10. When \<open>ENABLED\<close> is false, a controller tick changes nothing but the
  memory gauge, set to the sampled resident set size, and the CPU gauge, set to the
  sampled percentage divided by 100: the pool and the gauges \<open>active_workers\<close> and
  \<open>load_level\<close> are unchanged, after one tick and after any number of ticks.
\<close>

theorem disabled_tick:
  "\<not> ENABLED s \<Longrightarrow>
     manage_workers_tick msin s inp =
       s\<lparr>memory_usage_bytes := tick_rss inp, cpu_usage_estimate := fl (tick_cpu_percent inp / 100)\<rparr>
     \<and> workers (manage_workers_tick msin s inp) = workers s
     \<and> active_workers (manage_workers_tick msin s inp) = active_workers s
     \<and> load_level (manage_workers_tick msin s inp) = load_level s
     \<and> memory_usage_bytes (manage_workers_tick msin s inp) = tick_rss inp
     \<and> cpu_usage_estimate (manage_workers_tick msin s inp) = fl (tick_cpu_percent inp / 100)
     \<and> workers (manage_workers msin s inps) = workers s
     \<and> active_workers (manage_workers msin s inps) = active_workers s
     \<and> load_level (manage_workers msin s inps) = load_level s"
  using disabled_run [of s msin inps] by (simp add: tick_when_disabled)

theorem disabled_tick_witness:
  "\<not> ENABLED (initial_state\<lparr>ENABLED := False\<rparr>)
   \<and> manage_workers_tick example_sin (initial_state\<lparr>ENABLED := False\<rparr>)
        \<lparr>tick_elapsed = 5, tick_random = 0, tick_rss = 4096, tick_cpu_percent = 50\<rparr>
      = initial_state\<lparr>ENABLED := False, memory_usage_bytes := 4096, cpu_usage_estimate := 1 / 2\<rparr>"
  using disabled_tick [of "initial_state\<lparr>ENABLED := False\<rparr>" example_sin
      "\<lparr>tick_elapsed = 5, tick_random = 0, tick_rss = 4096, tick_cpu_percent = 50\<rparr>" "[]"]
    fl_half
  by (simp add: initial_state_def)

subsection \<open>POST /pattern\<close>

text \<open>
  Claim C7. For every pattern name outside wave, spike, random and manual,
  \<open>set_pattern\<close> answers 400 with an error body that lists the four valid names, and
  changes nothing but the request counter, so \<open>PATTERN_MODE\<close> is unchanged; for every
  name among the four it sets \<open>PATTERN_MODE\<close> to that name and answers 200 with a
  success body.
\<close>

theorem set_pattern_validates:
  "set valid_patterns = {''wave'', ''spike'', ''random'', ''manual''}
   \<and> (pattern_name \<notin> {''wave'', ''spike'', ''random'', ''manual''} \<longrightarrow>
        set_pattern pattern_name s =
          (inc_requests (''POST'', ''/pattern'', ''400'') s,
           \<lparr>status_code = 400,
            response_json = JDict
              [(''error'',
                JStr ''Invalid pattern. Must be one of: ['wave', 'spike', 'random', 'manual']'')]\<rparr>)
        \<and> PATTERN_MODE (fst (set_pattern pattern_name s)) = PATTERN_MODE s)
   \<and> (pattern_name \<in> {''wave'', ''spike'', ''random'', ''manual''} \<longrightarrow>
        PATTERN_MODE (fst (set_pattern pattern_name s)) = JStr pattern_name
        \<and> snd (set_pattern pattern_name s) =
            \<lparr>status_code = 200,
             response_json = JDict [(''status'', JStr ''success''), (''pattern'', JStr pattern_name)]\<rparr>)"
  by (auto simp add: set_pattern_def valid_patterns_def repr_list_def inc_requests_def)

theorem set_pattern_validates_witness:
  "''burst'' \<notin> {''wave'', ''spike'', ''random'', ''manual''}
   \<and> status_code (snd (set_pattern ''burst'' initial_state)) = 400
   \<and> PATTERN_MODE (fst (set_pattern ''burst'' initial_state)) = JStr ''wave''
   \<and> ''spike'' \<in> {''wave'', ''spike'', ''random'', ''manual''}
   \<and> status_code (snd (set_pattern ''spike'' initial_state)) = 200
   \<and> PATTERN_MODE (fst (set_pattern ''spike'' initial_state)) = JStr ''spike''"
  using set_pattern_validates [of "''burst''" initial_state]
    set_pattern_validates [of "''spike''" initial_state]
  by (simp add: initial_state_def inc_requests_def)

subsection \<open>POST /config\<close>

lemma field_dict: "field (JDict kvs) key = Inr (map_of kvs key)"
  by (simp add: field_def split: option.splits)

lemma int_field_dict:
  "int_field (JDict kvs) key =
     (case map_of kvs key of
        None \<Rightarrow> Inr None
      | Some v \<Rightarrow> (case py_int v of Inl e \<Rightarrow> Inl e | Inr n \<Rightarrow> Inr (Some n)))"
  by (simp add: int_field_def field_dict split: option.splits)

lemma data_dict: "(if truthy (JDict kvs) then JDict kvs else JDict []) = JDict kvs"
  by simp

lemma int_field_Inl:
  "int_field (JDict kvs) key = Inl e \<Longrightarrow>
     \<not> coerces kvs key \<and> (\<forall>old. requested kvs key old = old)"
  by (auto simp add: int_field_dict coerces_def requested_def split: option.splits sum.splits)

lemma int_field_Inr:
  "int_field (JDict kvs) key = Inr v \<Longrightarrow>
     coerces kvs key \<and> (\<forall>old. requested kvs key old = (case v of None \<Rightarrow> old | Some n \<Rightarrow> n))"
  by (auto simp add: int_field_dict coerces_def requested_def split: option.splits sum.splits)

lemma update_config_dict:
  "\<exists>s' r. update_config (JDict kvs) s = (s', r)
     \<and> PATTERN_MODE s' = (case map_of kvs ''pattern_mode'' of None \<Rightarrow> PATTERN_MODE s | Some v \<Rightarrow> v)
     \<and> BASE_LOAD s' = requested kvs ''base_load'' (BASE_LOAD s)
     \<and> MAX_LOAD s' =
         (if coerces kvs ''base_load'' then requested kvs ''max_load'' (MAX_LOAD s) else MAX_LOAD s)
     \<and> CYCLE_DURATION s' =
         (if coerces kvs ''base_load'' \<and> coerces kvs ''max_load''
          then requested kvs ''cycle_duration'' (CYCLE_DURATION s) else CYCLE_DURATION s)
     \<and> manual_workers s' =
         (if coerces kvs ''base_load'' \<and> coerces kvs ''max_load'' \<and> coerces kvs ''cycle_duration''
          then requested kvs ''workers'' (manual_workers s) else manual_workers s)
     \<and> ((\<exists>resp. r = Inr resp \<and> status_code resp = 200) =
          (coerces kvs ''base_load'' \<and> coerces kvs ''max_load'' \<and>
           coerces kvs ''cycle_duration'' \<and> coerces kvs ''workers''))
     \<and> ((\<exists>e. r = Inl e) =
          (\<not> (coerces kvs ''base_load'' \<and> coerces kvs ''max_load'' \<and>
              coerces kvs ''cycle_duration'' \<and> coerces kvs ''workers'')))
     \<and> ENABLED s' = ENABLED s \<and> workers s' = workers s
     \<and> current_load_level s' = current_load_level s"
proof -
  let ?all = "coerces kvs ''base_load'' \<and> coerces kvs ''max_load'' \<and>
              coerces kvs ''cycle_duration'' \<and> coerces kvs ''workers''"
  note defs = field_dict Let_def inc_requests_def
  show ?thesis
  proof (cases "int_field (JDict kvs) ''base_load''")
    case (Inl e)
    from int_field_Inl [OF Inl] Inl show ?thesis
      unfolding update_config_def data_dict
      by (simp add: defs split: option.splits)
  next
    case b: (Inr v2)
    note B = int_field_Inr [OF b]
    show ?thesis
    proof (cases "int_field (JDict kvs) ''max_load''")
      case (Inl e)
      from int_field_Inl [OF Inl] Inl b B show ?thesis
        unfolding update_config_def data_dict
        by (simp add: defs split: option.splits)
    next
      case m: (Inr v3)
      note M = int_field_Inr [OF m]
      show ?thesis
      proof (cases "int_field (JDict kvs) ''cycle_duration''")
        case (Inl e)
        from int_field_Inl [OF Inl] Inl b B m M show ?thesis
          unfolding update_config_def data_dict
          by (simp add: defs split: option.splits)
      next
        case c: (Inr v4)
        note C = int_field_Inr [OF c]
        show ?thesis
        proof (cases "int_field (JDict kvs) ''workers''")
          case (Inl e)
          from int_field_Inl [OF Inl] Inl b B m M c C show ?thesis
            unfolding update_config_def data_dict
            by (simp add: defs split: option.splits)
        next
          case w: (Inr v5)
          from int_field_Inr [OF w] w b B m M c C show ?thesis
            unfolding update_config_def data_dict
            by (simp add: defs split: option.splits)
        qed
      qed
    qed
  qed
qed

text \<open>
  The handler stops at the first value that \<open>int\<close> rejects. With the body
  \<open>{"base_load": "abc", "max_load": 5}\<close> the field \<open>max_load\<close> is present and its
  value coerces, yet \<open>MAX_LOAD\<close> keeps its previous value 50: the request has failed
  with ValueError at \<open>base_load\<close>.
\<close>

theorem update_config_stops_counterexample:
  "map_of [(''base_load'', JStr ''abc''), (''max_load'', JInt 5)] ''max_load'' = Some (JInt 5)
   \<and> py_int (JInt 5) = Inr 5
   \<and> MAX_LOAD initial_state = 50
   \<and> MAX_LOAD (fst (update_config (JDict [(''base_load'', JStr ''abc''), (''max_load'', JInt 5)])
                      initial_state)) = 50
   \<and> snd (update_config (JDict [(''base_load'', JStr ''abc''), (''max_load'', JInt 5)])
             initial_state) = Inl ValueError"
  by (simp add: update_config_def field_def int_field_def int_of_str_def strip_def is_space_def
      digit_val_def initial_state_def)

text \<open>
  Claim C8, as amended. For every POST /config whose body is a JSON object, the fields
  are handled in the order pattern_mode, base_load, max_load, cycle_duration, workers. A
  field absent from the body keeps its previous value. When every numeric field that is
  present coerces, the request succeeds with status 200 and every present field is
  updated, pattern_mode to the value of the body as it is and the numeric fields to the
  coerced integers; nothing else is validated. A value that fails coercion fails the
  request: the fields handled before it have been updated, the failing field and the
  fields after it keep their previous values. A body that is empty or false in Python's
  sense is read as the empty object.
\<close>

theorem update_config_fields:
  "(\<exists>s' r. update_config (JDict kvs) s = (s', r)
     \<and> (map_of kvs ''pattern_mode'' = None \<longrightarrow> PATTERN_MODE s' = PATTERN_MODE s)
     \<and> (map_of kvs ''base_load'' = None \<longrightarrow> BASE_LOAD s' = BASE_LOAD s)
     \<and> (map_of kvs ''max_load'' = None \<longrightarrow> MAX_LOAD s' = MAX_LOAD s)
     \<and> (map_of kvs ''cycle_duration'' = None \<longrightarrow> CYCLE_DURATION s' = CYCLE_DURATION s)
     \<and> (map_of kvs ''workers'' = None \<longrightarrow> manual_workers s' = manual_workers s)
     \<and> (coerces kvs ''base_load'' \<and> coerces kvs ''max_load'' \<and>
         coerces kvs ''cycle_duration'' \<and> coerces kvs ''workers'' \<longrightarrow>
           (\<exists>resp. r = Inr resp \<and> status_code resp = 200)
           \<and> (\<forall>v. map_of kvs ''pattern_mode'' = Some v \<longrightarrow> PATTERN_MODE s' = v)
           \<and> (\<forall>v. map_of kvs ''base_load'' = Some v \<longrightarrow> py_int v = Inr (BASE_LOAD s'))
           \<and> (\<forall>v. map_of kvs ''max_load'' = Some v \<longrightarrow> py_int v = Inr (MAX_LOAD s'))
           \<and> (\<forall>v. map_of kvs ''cycle_duration'' = Some v \<longrightarrow> py_int v = Inr (CYCLE_DURATION s'))
           \<and> (\<forall>v. map_of kvs ''workers'' = Some v \<longrightarrow> py_int v = Inr (manual_workers s')))
     \<and> (\<not> (coerces kvs ''base_load'' \<and> coerces kvs ''max_load'' \<and>
            coerces kvs ''cycle_duration'' \<and> coerces kvs ''workers'') \<longrightarrow> (\<exists>e. r = Inl e))
     \<and> PATTERN_MODE s' = (case map_of kvs ''pattern_mode'' of None \<Rightarrow> PATTERN_MODE s | Some v \<Rightarrow> v)
     \<and> BASE_LOAD s' = requested kvs ''base_load'' (BASE_LOAD s)
     \<and> MAX_LOAD s' =
         (if coerces kvs ''base_load'' then requested kvs ''max_load'' (MAX_LOAD s) else MAX_LOAD s)
     \<and> CYCLE_DURATION s' =
         (if coerces kvs ''base_load'' \<and> coerces kvs ''max_load''
          then requested kvs ''cycle_duration'' (CYCLE_DURATION s) else CYCLE_DURATION s)
     \<and> manual_workers s' =
         (if coerces kvs ''base_load'' \<and> coerces kvs ''max_load'' \<and> coerces kvs ''cycle_duration''
          then requested kvs ''workers'' (manual_workers s) else manual_workers s))
   \<and> (\<not> truthy request_json \<longrightarrow>
        update_config request_json s = update_config (JDict []) s)"
proof -
  from update_config_dict [of kvs s] obtain s' r where
    eq: "update_config (JDict kvs) s = (s', r)" and
    pm: "PATTERN_MODE s' = (case map_of kvs ''pattern_mode'' of None \<Rightarrow> PATTERN_MODE s | Some v \<Rightarrow> v)" and
    bl: "BASE_LOAD s' = requested kvs ''base_load'' (BASE_LOAD s)" and
    ml: "MAX_LOAD s' =
         (if coerces kvs ''base_load'' then requested kvs ''max_load'' (MAX_LOAD s) else MAX_LOAD s)" and
    cd: "CYCLE_DURATION s' =
         (if coerces kvs ''base_load'' \<and> coerces kvs ''max_load''
          then requested kvs ''cycle_duration'' (CYCLE_DURATION s) else CYCLE_DURATION s)" and
    mw: "manual_workers s' =
         (if coerces kvs ''base_load'' \<and> coerces kvs ''max_load'' \<and> coerces kvs ''cycle_duration''
          then requested kvs ''workers'' (manual_workers s) else manual_workers s)" and
    ok: "(\<exists>resp. r = Inr resp \<and> status_code resp = 200) =
          (coerces kvs ''base_load'' \<and> coerces kvs ''max_load'' \<and>
           coerces kvs ''cycle_duration'' \<and> coerces kvs ''workers'')" and
    ko: "(\<exists>e. r = Inl e) =
          (\<not> (coerces kvs ''base_load'' \<and> coerces kvs ''max_load'' \<and>
              coerces kvs ''cycle_duration'' \<and> coerces kvs ''workers''))"
    by blast
  have absent: "requested kvs key old = old" if "map_of kvs key = None" for key old
    using that by (simp add: requested_def)
  have present: "py_int v = Inr (requested kvs key old)"
    if "map_of kvs key = Some v" "coerces kvs key" for key v old
    using that by (simp add: requested_def coerces_def split: sum.splits)
  have a1: "map_of kvs ''pattern_mode'' = None \<longrightarrow> PATTERN_MODE s' = PATTERN_MODE s"
    using pm by simp
  have a2: "map_of kvs ''base_load'' = None \<longrightarrow> BASE_LOAD s' = BASE_LOAD s"
    using bl absent by simp
  have a3: "map_of kvs ''max_load'' = None \<longrightarrow> MAX_LOAD s' = MAX_LOAD s"
    using ml absent by simp
  have a4: "map_of kvs ''cycle_duration'' = None \<longrightarrow> CYCLE_DURATION s' = CYCLE_DURATION s"
    using cd absent by simp
  have a5: "map_of kvs ''workers'' = None \<longrightarrow> manual_workers s' = manual_workers s"
    using mw absent by simp
  have good: "coerces kvs ''base_load'' \<and> coerces kvs ''max_load'' \<and>
         coerces kvs ''cycle_duration'' \<and> coerces kvs ''workers'' \<longrightarrow>
           (\<exists>resp. r = Inr resp \<and> status_code resp = 200)
           \<and> (\<forall>v. map_of kvs ''pattern_mode'' = Some v \<longrightarrow> PATTERN_MODE s' = v)
           \<and> (\<forall>v. map_of kvs ''base_load'' = Some v \<longrightarrow> py_int v = Inr (BASE_LOAD s'))
           \<and> (\<forall>v. map_of kvs ''max_load'' = Some v \<longrightarrow> py_int v = Inr (MAX_LOAD s'))
           \<and> (\<forall>v. map_of kvs ''cycle_duration'' = Some v \<longrightarrow> py_int v = Inr (CYCLE_DURATION s'))
           \<and> (\<forall>v. map_of kvs ''workers'' = Some v \<longrightarrow> py_int v = Inr (manual_workers s'))"
    using ok pm bl ml cd mw present by simp
  have bad: "\<not> (coerces kvs ''base_load'' \<and> coerces kvs ''max_load'' \<and>
            coerces kvs ''cycle_duration'' \<and> coerces kvs ''workers'') \<longrightarrow> (\<exists>e. r = Inl e)"
    using ko by simp
  have falsy: "\<not> truthy request_json \<longrightarrow>
        update_config request_json s = update_config (JDict []) s"
    by (simp add: update_config_def)
  show ?thesis
    apply (rule conjI)
     apply (rule exI [of _ s'])
     apply (rule exI [of _ r])
     apply (intro conjI)
                 apply (fact eq a1 a2 a3 a4 a5 good bad pm bl ml cd mw)+
    apply (rule falsy)
    done
qed

theorem update_config_fields_witness:
  "coerces [(''base_load'', JInt 50), (''max_load'', JStr '' -3 ''), (''cycle_duration'', JFloat 0)] ''base_load''
   \<and> coerces [(''base_load'', JInt 50), (''max_load'', JStr '' -3 ''), (''cycle_duration'', JFloat 0)] ''max_load''
   \<and> coerces [(''base_load'', JInt 50), (''max_load'', JStr '' -3 ''), (''cycle_duration'', JFloat 0)] ''cycle_duration''
   \<and> coerces [(''base_load'', JInt 50), (''max_load'', JStr '' -3 ''), (''cycle_duration'', JFloat 0)] ''workers''
   \<and> (\<exists>s' resp.
        update_config
          (JDict [(''base_load'', JInt 50), (''max_load'', JStr '' -3 ''), (''cycle_duration'', JFloat 0)])
          initial_state = (s', Inr resp)
        \<and> status_code resp = 200
        \<and> PATTERN_MODE s' = JStr ''wave'' \<and> BASE_LOAD s' = 50 \<and> MAX_LOAD s' = - 3
        \<and> CYCLE_DURATION s' = 0 \<and> manual_workers s' = 10)"
proof -
  let ?kvs = "[(''base_load'', JInt 50), (''max_load'', JStr '' -3 ''), (''cycle_duration'', JFloat 0)]"
  have c: "coerces ?kvs ''base_load''" "coerces ?kvs ''max_load''"
    "coerces ?kvs ''cycle_duration''" "coerces ?kvs ''workers''"
    by (simp_all add: coerces_def int_of_str_def strip_def is_space_def digit_val_def)
  have v: "requested ?kvs ''base_load'' 10 = 50" "requested ?kvs ''max_load'' 50 = - 3"
    "requested ?kvs ''cycle_duration'' 120 = 0" "requested ?kvs ''workers'' 10 = 10"
    by (simp_all add: requested_def int_of_str_def strip_def is_space_def digit_val_def
        int_of_float_def)
  have i: "PATTERN_MODE initial_state = JStr ''wave''" "BASE_LOAD initial_state = 10"
    "MAX_LOAD initial_state = 50" "CYCLE_DURATION initial_state = 120"
    "manual_workers initial_state = 10"
    by (simp_all add: initial_state_def)
  from update_config_fields [of ?kvs initial_state, THEN conjunct1] obtain s' r where
    eq: "update_config (JDict ?kvs) initial_state = (s', r)" and
    good: "coerces ?kvs ''base_load'' \<and> coerces ?kvs ''max_load'' \<and>
           coerces ?kvs ''cycle_duration'' \<and> coerces ?kvs ''workers'' \<longrightarrow>
           (\<exists>resp. r = Inr resp \<and> status_code resp = 200)" and
    pm: "PATTERN_MODE s' =
           (case map_of ?kvs ''pattern_mode'' of None \<Rightarrow> PATTERN_MODE initial_state | Some v \<Rightarrow> v)" and
    bl: "BASE_LOAD s' = requested ?kvs ''base_load'' (BASE_LOAD initial_state)" and
    ml: "MAX_LOAD s' =
         (if coerces ?kvs ''base_load'' then requested ?kvs ''max_load'' (MAX_LOAD initial_state)
          else MAX_LOAD initial_state)" and
    cd: "CYCLE_DURATION s' =
         (if coerces ?kvs ''base_load'' \<and> coerces ?kvs ''max_load''
          then requested ?kvs ''cycle_duration'' (CYCLE_DURATION initial_state)
          else CYCLE_DURATION initial_state)" and
    mw: "manual_workers s' =
         (if coerces ?kvs ''base_load'' \<and> coerces ?kvs ''max_load'' \<and> coerces ?kvs ''cycle_duration''
          then requested ?kvs ''workers'' (manual_workers initial_state)
          else manual_workers initial_state)"
    by blast
  from good c obtain resp where r: "r = Inr resp" "status_code resp = 200" by blast
  have "PATTERN_MODE s' = JStr ''wave''" using pm i by simp
  moreover have "BASE_LOAD s' = 50" using bl i v by simp
  moreover have "MAX_LOAD s' = - 3" using ml c i v by simp
  moreover have "CYCLE_DURATION s' = 0" using cd c i v by simp
  moreover have "manual_workers s' = 10" using mw c i v by simp
  ultimately show ?thesis using c eq r by blast
qed

end
